theory Spec2Isabelle
  imports Main "HOL-Library.Word"
begin

unbundle bit_operations_syntax

section \<open>Bitboards and squares (bitboard.c)\<close>

text \<open>
  A bitboard is a \<open>uint64_t\<close>, one bit per square; a \<open>board_pos\<close> is a \<open>uint8_t\<close>
  holding a square index 0..63 or the sentinel 255.  Squares are modelled as natural
  numbers; the places where the source increments a \<open>uint8_t\<close> write the reduction
  modulo 256 out.  The square-level primitives of the source assert \<open>square < 64\<close>;
  the model keeps them total (a shift by 64 or more yields no bit) and the callers that
  can receive an arbitrary square check the range themselves, as an assertion failure.
  Values of type \<open>int\<close> that the source only tests for being non-zero are booleans here.
\<close>

type_synonym bitboard = "64 word"
type_synonym board_pos = nat
type_synonym move = "64 word"

definition bitboard_check_square :: "bitboard \<Rightarrow> board_pos \<Rightarrow> bool" where
  "bitboard_check_square b square \<longleftrightarrow> (drop_bit square b) AND 1 \<noteq> 0"

definition bitboard_set_square :: "bitboard \<Rightarrow> board_pos \<Rightarrow> bitboard" where
  "bitboard_set_square b square = b OR (push_bit square 1)"

definition bitboard_clear_square :: "bitboard \<Rightarrow> board_pos \<Rightarrow> bitboard" where
  "bitboard_clear_square b square = b AND NOT (push_bit square 1)"

text \<open>\<open>__builtin_popcountll\<close>: the number of set bits.\<close>

definition bitboard_popcount :: "bitboard \<Rightarrow> nat" where
  "bitboard_popcount b = length (filter (bit b) [0..<64])"

text \<open>\<open>__builtin_ctzll\<close>: the index of the lowest set bit.  The builtin is undefined on 0;
  every caller tests for a non-zero argument first, and the model answers 64 there.\<close>

fun scan_lsb_from :: "bitboard \<Rightarrow> nat \<Rightarrow> nat \<Rightarrow> nat" where
  "scan_lsb_from b i 0 = i"
| "scan_lsb_from b i (Suc k) = (if bit b i then i else scan_lsb_from b (Suc i) k)"

definition bitboard_scan_lsb :: "bitboard \<Rightarrow> nat" where
  "bitboard_scan_lsb b = scan_lsb_from b 0 64"

definition BOARD_POS_INVALID :: board_pos where
  "BOARD_POS_INVALID = 255"

definition board_pos_from_xy :: "int \<Rightarrow> int \<Rightarrow> board_pos" where
  "board_pos_from_xy x y =
     (if x < 0 \<or> y < 0 \<or> x \<ge> 8 \<or> y \<ge> 8 then BOARD_POS_INVALID
      else nat (x + y * 8))"

definition board_pos_to_x :: "board_pos \<Rightarrow> int" where
  "board_pos_to_x pos = int (pos mod 8)"

definition board_pos_to_y :: "board_pos \<Rightarrow> int" where
  "board_pos_to_y pos = int ((pos div 8) mod 8)"

subsection \<open>Bit-level facts about the primitives\<close>

lemma scan_lsb_from_bit:
  "\<exists>j. i \<le> j \<and> j < i + k \<and> bit b j \<Longrightarrow> bit b (scan_lsb_from b i k) \<and> scan_lsb_from b i k < i + k"
proof (induction k arbitrary: i)
  case 0 then show ?case by auto
next
  case (Suc k)
  show ?case
  proof (cases "bit b i")
    case True then show ?thesis by simp
  next
    case False
    from Suc.prems obtain j where j: "i \<le> j" "j < i + Suc k" "bit b j" by blast
    with False have "j \<noteq> i" by auto
    with j have "\<exists>j. Suc i \<le> j \<and> j < Suc i + k \<and> bit b j" by (intro exI[of _ j]) auto
    from Suc.IH[OF this] False show ?thesis by simp
  qed
qed

lemma bitboard_scan_lsb_bit:
  fixes b :: bitboard
  assumes "b \<noteq> 0"
  shows "bit b (bitboard_scan_lsb b)" and "bitboard_scan_lsb b < 64"
proof -
  from assms obtain j where "bit b j" by (auto simp: bit_eq_iff)
  moreover then have "j < 64" by (auto dest: bit_imp_le_length)
  ultimately have "\<exists>j. 0 \<le> j \<and> j < 0 + 64 \<and> bit b j" by auto
  from scan_lsb_from_bit[OF this] show "bit b (bitboard_scan_lsb b)" and "bitboard_scan_lsb b < 64"
    by (simp_all add: bitboard_scan_lsb_def)
qed

lemma bit_bitboard_set_square [simp]:
  "bit (bitboard_set_square b s) n \<longleftrightarrow> bit b n \<or> (n = s \<and> s < 64)"
  by (auto simp: bitboard_set_square_def bit_simps)

lemma bit_bitboard_clear_square [simp]:
  "bit (bitboard_clear_square b s) n \<longleftrightarrow> bit b n \<and> n \<noteq> s"
  by (auto simp: bitboard_clear_square_def bit_simps dest: bit_imp_le_length)

lemma bitboard_check_square_bit [simp]: "bitboard_check_square b s \<longleftrightarrow> bit b s"
  by (auto simp: bitboard_check_square_def bit_iff_odd_drop_bit and_one_eq mod_2_eq_odd)

lemma bitboard_popcount_clear:
  assumes "bit b s"
  shows "bitboard_popcount (bitboard_clear_square b s) < bitboard_popcount b"
proof -
  have s: "s < 64" using assms by (auto dest: bit_imp_le_length)
  have "bitboard_popcount b = card {n. n < 64 \<and> bit b n}" for b :: bitboard
    unfolding bitboard_popcount_def by (subst distinct_length_filter) (auto intro: arg_cong[where f=card])
  moreover have "{n. n < 64 \<and> bit (bitboard_clear_square b s) n} \<subset> {n. n < 64 \<and> bit b n}"
    using assms s by auto
  ultimately show ?thesis by (simp add: psubset_card_mono)
qed


subsection \<open>Evaluating the two builtins on numerals\<close>

text \<open>\<open>bitboard_popcount\<close> and \<open>bitboard_scan_lsb\<close> agree with a bit-by-bit loop over
  the value of the word; the loops are what the simplifier runs on a concrete bitboard.\<close>

fun popcount_nat :: "nat \<Rightarrow> nat \<Rightarrow> nat" where
  "popcount_nat 0 m = 0"
| "popcount_nat (Suc k) m = m mod 2 + popcount_nat k (m div 2)"

lemma popcount_nat_card: "popcount_nat k m = card {i. i < k \<and> bit m i}"
proof (induction k arbitrary: m)
  case 0 then show ?case by simp
next
  case (Suc k)
  have split: "{i. i < Suc k \<and> bit m i} = (if odd m then {0} else {}) \<union> Suc ` {i. i < k \<and> bit (m div 2) i}"
  proof (rule set_eqI)
    fix n show "n \<in> {i. i < Suc k \<and> bit m i} \<longleftrightarrow> n \<in> (if odd m then {0} else {}) \<union> Suc ` {i. i < k \<and> bit (m div 2) i}"
      by (cases n) (auto simp: bit_Suc bit_0 image_iff)
  qed
  have "card {i. i < Suc k \<and> bit m i} = card (if odd m then {0::nat} else {}) + card (Suc ` {i. i < k \<and> bit (m div 2) i})"
    by (subst split, subst card_Un_disjoint) auto
  also have "card (Suc ` {i. i < k \<and> bit (m div 2) i}) = card {i. i < k \<and> bit (m div 2) i}"
    by (rule card_image) simp
  also have "card (if odd m then {0::nat} else {}) = m mod 2" by (auto simp: odd_iff_mod_2_eq_one)
  finally show ?case using Suc.IH[of "m div 2"] by simp
qed

lemma bitboard_popcount_card: "bitboard_popcount b = card {n. bit b n}"
proof -
  have "{n. bit b n} = {n. bit b n} \<inter> set [0..<64]"
    by (auto dest: bit_imp_le_length)
  then show ?thesis
    unfolding bitboard_popcount_def by (subst distinct_length_filter) simp_all
qed

lemma bitboard_popcount_nat: "bitboard_popcount w = popcount_nat 64 (unat w)"
proof -
  have "{n. bit w n} = {i. i < 64 \<and> bit (unat w) i}"
    by (auto simp: bit_unsigned_iff dest: bit_imp_le_length)
  then show ?thesis by (simp add: bitboard_popcount_card popcount_nat_card)
qed

lemma popcount_nat_numeral:
  "popcount_nat (numeral k) m = m mod 2 + popcount_nat (pred_numeral k) (m div 2)"
  by (simp add: numeral_eq_Suc)

fun scan_rem :: "nat \<Rightarrow> nat \<Rightarrow> nat" where
  "scan_rem 0 m = 0"
| "scan_rem (Suc k) m = (if odd m then Suc k else scan_rem k (m div 2))"

lemma scan_rem_le: "scan_rem k m \<le> k"
  by (induction k arbitrary: m) (auto simp: le_Suc_eq)

lemma scan_lsb_from_nat: "scan_lsb_from b i k = i + k - scan_rem k (unat (drop_bit i b))"
proof (induction k arbitrary: i)
  case 0 then show ?case by simp
next
  case (Suc k)
  have "bit (unat b) i \<longleftrightarrow> bit b i" by (simp add: bit_unsigned_iff)
  then have 1: "odd (unat (drop_bit i b)) \<longleftrightarrow> bit b i"
    by (simp add: bit_iff_odd_drop_bit unat_drop_bit_eq)
  have 2: "unat (drop_bit i b) div 2 = unat (drop_bit (Suc i) b)"
    unfolding unat_drop_bit_eq by (simp add: drop_bit_eq_div flip: div_mult2_eq) (simp add: mult.commute)
  show ?case using Suc.IH[of "Suc i"] scan_rem_le[of k "unat (drop_bit (Suc i) b)"]
    by (simp add: 1 2)
qed

lemma bitboard_scan_lsb_nat: "bitboard_scan_lsb w = 64 - scan_rem 64 (unat w)"
  by (simp add: bitboard_scan_lsb_def scan_lsb_from_nat)

lemma scan_rem_numeral:
  "scan_rem (numeral k) m = (if odd m then numeral k else scan_rem (pred_numeral k) (m div 2))"
  by (simp add: numeral_eq_Suc)

section \<open>Positions\<close>

definition WHITE :: nat where "WHITE = 0"
definition BLACK :: nat where "BLACK = 1"

definition KING :: nat where "KING = 0"
definition PAWN :: nat where "PAWN = 1"
definition KNIGHT :: nat where "KNIGHT = 2"
definition ROOK :: nat where "ROOK = 3"
definition BISHOP :: nat where "BISHOP = 4"
definition QUEEN :: nat where "QUEEN = 5"

definition BOARD_FLAGS_EP_SQUARE :: "32 word" where "BOARD_FLAGS_EP_SQUARE = 63"
definition BOARD_FLAGS_EP_PRESENT :: "32 word" where "BOARD_FLAGS_EP_PRESENT = 64"
definition BOARD_FLAGS_TURN :: "32 word" where "BOARD_FLAGS_TURN = 128"
definition BOARD_FLAGS_W_CASTLE_KING :: "32 word" where "BOARD_FLAGS_W_CASTLE_KING = 256"
definition BOARD_FLAGS_W_CASTLE_QUEEN :: "32 word" where "BOARD_FLAGS_W_CASTLE_QUEEN = 512"
definition BOARD_FLAGS_B_CASTLE_KING :: "32 word" where "BOARD_FLAGS_B_CASTLE_KING = 1024"
definition BOARD_FLAGS_B_CASTLE_QUEEN :: "32 word" where "BOARD_FLAGS_B_CASTLE_QUEEN = 2048"
definition BOARD_FLAGS_TURN_NUM :: "32 word" where "BOARD_FLAGS_TURN_NUM = 0xffff0000"
definition BOARD_FLAGS_TURN_NUM_SHIFT :: nat where "BOARD_FLAGS_TURN_NUM_SHIFT = 16"
definition BOARD_FLAGS_LOW :: "32 word" where "BOARD_FLAGS_LOW = 0x0000ffff"

lemmas piece_defs = KING_def PAWN_def KNIGHT_def ROOK_def BISHOP_def QUEEN_def
  WHITE_def BLACK_def

lemmas flag_defs = BOARD_FLAGS_EP_SQUARE_def BOARD_FLAGS_EP_PRESENT_def BOARD_FLAGS_TURN_def
  BOARD_FLAGS_W_CASTLE_KING_def BOARD_FLAGS_W_CASTLE_QUEEN_def BOARD_FLAGS_B_CASTLE_KING_def
  BOARD_FLAGS_B_CASTLE_QUEEN_def BOARD_FLAGS_TURN_NUM_def BOARD_FLAGS_TURN_NUM_SHIFT_def
  BOARD_FLAGS_LOW_def BOARD_POS_INVALID_def

text \<open>\<open>struct __chess_util_board\<close> of chess-util.h: \<open>players[2]\<close>, \<open>pieces[6]\<close> and
  the 32-bit \<open>flags\<close> word.\<close>

record board =
  players :: "bitboard list"
  pieces :: "bitboard list"
  flags :: "32 word"

definition board_get_full_turn_number :: "board \<Rightarrow> nat" where
  "board_get_full_turn_number b =
     unat (drop_bit BOARD_FLAGS_TURN_NUM_SHIFT (flags b AND BOARD_FLAGS_TURN_NUM))"

definition board_player_to_move :: "board \<Rightarrow> nat" where
  "board_player_to_move b = (if flags b AND BOARD_FLAGS_TURN \<noteq> 0 then 1 else 0)"

definition board_get_en_passant_target :: "board \<Rightarrow> board_pos" where
  "board_get_en_passant_target b =
     (if flags b AND BOARD_FLAGS_EP_PRESENT = 0 then BOARD_POS_INVALID
      else unat (flags b AND BOARD_FLAGS_EP_SQUARE))"

text \<open>\<open>board_piece_on_square\<close> and \<open>board_player_on_square\<close> return the first index
  whose bitboard holds the square, or -1.\<close>

definition board_piece_on_square :: "board \<Rightarrow> board_pos \<Rightarrow> int" where
  "board_piece_on_square b square =
     (case find (\<lambda>p. bitboard_check_square (pieces b ! p) square) [0, 1, 2, 3, 4, 5] of
        Some p \<Rightarrow> int p
      | None \<Rightarrow> - 1)"

definition board_player_on_square :: "board \<Rightarrow> board_pos \<Rightarrow> int" where
  "board_player_on_square b square =
     (case find (\<lambda>p. bitboard_check_square (players b ! p) square) [0, 1] of
        Some p \<Rightarrow> int p
      | None \<Rightarrow> - 1)"

text \<open>\<open>board_invariants\<close>: \<open>True\<close> when every assertion of the source passes.  The last
  assertion tests the en-passant target against \<open>players[0] & players[1]\<close>, as the source
  writes it.\<close>

definition board_invariants :: "board \<Rightarrow> bool" where
  "board_invariants b \<longleftrightarrow>
     (players b ! 0) AND (players b ! 1) = 0
   \<and> (\<forall>i \<in> set [0, 1, 2, 3, 4, 5]. \<forall>j \<in> set [0, 1, 2, 3, 4, 5].
        i = j \<or> (pieces b ! i) AND (pieces b ! j) = 0)
   \<and> bitboard_popcount ((players b ! 0) AND (pieces b ! KING)) = 1
   \<and> bitboard_popcount ((players b ! 1) AND (pieces b ! KING)) = 1
   \<and> (flags b AND BOARD_FLAGS_EP_PRESENT \<noteq> 0 \<longrightarrow>
        (let player_to_move = board_player_to_move b;
             ep_target = unat (flags b AND BOARD_FLAGS_EP_SQUARE);
             y = board_pos_to_y ep_target
         in ((player_to_move = WHITE \<and> y = 5) \<or> (player_to_move = BLACK \<and> y = 2))
            \<and> \<not> bitboard_check_square ((players b ! 0) AND (players b ! 1)) ep_target))"

section \<open>Move encoding (move_gen.c)\<close>

definition MOVE_END :: move where "MOVE_END = 0xffffffffffffffff"

definition MOVE_FLAGS_PREV_FLAGS :: move where "MOVE_FLAGS_PREV_FLAGS = 0x0000000ffff"
definition MOVE_FLAGS_SRC :: move where "MOVE_FLAGS_SRC = 0x000003f0000"
definition MOVE_SHIFT_SRC :: nat where "MOVE_SHIFT_SRC = 16"
definition MOVE_FLAGS_DST :: move where "MOVE_FLAGS_DST = 0x0000fc00000"
definition MOVE_SHIFT_DST :: nat where "MOVE_SHIFT_DST = 22"
definition MOVE_FLAGS_IS_PROMOTE :: move where "MOVE_FLAGS_IS_PROMOTE = 0x00010000000"
definition MOVE_SHIFT_IS_PROMOTE :: nat where "MOVE_SHIFT_IS_PROMOTE = 28"
definition MOVE_FLAGS_PROMOTE_PIECE :: move where "MOVE_FLAGS_PROMOTE_PIECE = 0x000e0000000"
definition MOVE_SHIFT_PROMOTE_PIECE :: nat where "MOVE_SHIFT_PROMOTE_PIECE = 29"
definition MOVE_FLAGS_IS_CAPTURE :: move where "MOVE_FLAGS_IS_CAPTURE = 0x00100000000"
definition MOVE_SHIFT_IS_CAPTURE :: nat where "MOVE_SHIFT_IS_CAPTURE = 32"
definition MOVE_FLAGS_CAPTURE_PIECE :: move where "MOVE_FLAGS_CAPTURE_PIECE = 0x00e00000000"
definition MOVE_SHIFT_CAPTURE_PIECE :: nat where "MOVE_SHIFT_CAPTURE_PIECE = 33"
definition MOVE_FLAGS_CAPTURE_SQUARE :: move where "MOVE_FLAGS_CAPTURE_SQUARE = 0x3f000000000"
definition MOVE_SHIFT_CAPTURE_SQUARE :: nat where "MOVE_SHIFT_CAPTURE_SQUARE = 36"
definition MOVE_FLAGS_IS_CASTLE :: move where "MOVE_FLAGS_IS_CASTLE = 0x40000000000"
definition MOVE_SHIFTS_IS_CASTLE :: nat where "MOVE_SHIFTS_IS_CASTLE = 42"

lemmas move_flag_defs = MOVE_END_def MOVE_FLAGS_PREV_FLAGS_def MOVE_FLAGS_SRC_def
  MOVE_SHIFT_SRC_def MOVE_FLAGS_DST_def MOVE_SHIFT_DST_def MOVE_FLAGS_IS_PROMOTE_def
  MOVE_SHIFT_IS_PROMOTE_def MOVE_FLAGS_PROMOTE_PIECE_def MOVE_SHIFT_PROMOTE_PIECE_def
  MOVE_FLAGS_IS_CAPTURE_def MOVE_SHIFT_IS_CAPTURE_def MOVE_FLAGS_CAPTURE_PIECE_def
  MOVE_SHIFT_CAPTURE_PIECE_def MOVE_FLAGS_CAPTURE_SQUARE_def MOVE_SHIFT_CAPTURE_SQUARE_def
  MOVE_FLAGS_IS_CASTLE_def MOVE_SHIFTS_IS_CASTLE_def

definition move_source_square :: "move \<Rightarrow> board_pos" where
  "move_source_square m = unat (drop_bit MOVE_SHIFT_SRC (m AND MOVE_FLAGS_SRC))"

definition move_destination_square :: "move \<Rightarrow> board_pos" where
  "move_destination_square m = unat (drop_bit MOVE_SHIFT_DST (m AND MOVE_FLAGS_DST))"

definition move_is_promotion :: "move \<Rightarrow> bool" where
  "move_is_promotion m \<longleftrightarrow> m AND MOVE_FLAGS_IS_PROMOTE \<noteq> 0"

definition move_promotion_piece :: "move \<Rightarrow> int" where
  "move_promotion_piece m =
     (if \<not> move_is_promotion m then - 1
      else uint (drop_bit MOVE_SHIFT_PROMOTE_PIECE (m AND MOVE_FLAGS_PROMOTE_PIECE)))"

definition move_is_capture :: "move \<Rightarrow> bool" where
  "move_is_capture m \<longleftrightarrow> m AND MOVE_FLAGS_IS_CAPTURE \<noteq> 0"

definition move_capture_piece :: "move \<Rightarrow> int" where
  "move_capture_piece m =
     (if \<not> move_is_capture m then - 1
      else uint (drop_bit MOVE_SHIFT_CAPTURE_PIECE (m AND MOVE_FLAGS_CAPTURE_PIECE)))"

definition move_capture_square :: "move \<Rightarrow> board_pos" where
  "move_capture_square m =
     (if \<not> move_is_capture m then BOARD_POS_INVALID
      else unat (drop_bit MOVE_SHIFT_CAPTURE_SQUARE (m AND MOVE_FLAGS_CAPTURE_SQUARE)))"

definition move_is_castle :: "move \<Rightarrow> bool" where
  "move_is_castle m \<longleftrightarrow> drop_bit MOVE_SHIFTS_IS_CASTLE (m AND MOVE_FLAGS_IS_CASTLE) \<noteq> 0"

text \<open>\<open>construct_move\<close>: the parameter \<open>board_flags\<close> is a \<open>uint16_t\<close>, so the 32-bit
  flags word of the caller is cut to its low half on the way in; the \<open>int\<close> arguments
  are converted to \<open>uint64_t\<close> before they are shifted, which \<open>word_of_int\<close> does.\<close>

definition construct_move ::
  "32 word \<Rightarrow> board_pos \<Rightarrow> board_pos \<Rightarrow> bool \<Rightarrow> int \<Rightarrow> bool \<Rightarrow> int \<Rightarrow> board_pos \<Rightarrow> bool \<Rightarrow> move"
  where
  "construct_move board_flags src dst is_promotion promote_piece is_capture capture_piece
      capture_pos is_castle =
     ((ucast ((ucast board_flags) :: 16 word)) AND MOVE_FLAGS_PREV_FLAGS)
     + ((push_bit MOVE_SHIFT_SRC (of_nat src)) AND MOVE_FLAGS_SRC)
     + ((push_bit MOVE_SHIFT_DST (of_nat dst)) AND MOVE_FLAGS_DST)
     + (push_bit MOVE_SHIFT_IS_PROMOTE (if is_promotion then 1 else 0))
     + ((push_bit MOVE_SHIFT_PROMOTE_PIECE (word_of_int promote_piece))
          AND MOVE_FLAGS_PROMOTE_PIECE)
     + (push_bit MOVE_SHIFT_IS_CAPTURE (if is_capture then 1 else 0))
     + ((push_bit MOVE_SHIFT_CAPTURE_PIECE (word_of_int capture_piece))
          AND MOVE_FLAGS_CAPTURE_PIECE)
     + ((push_bit MOVE_SHIFT_CAPTURE_SQUARE (of_nat capture_pos)) AND MOVE_FLAGS_CAPTURE_SQUARE)
     + ((push_bit MOVE_SHIFTS_IS_CASTLE (if is_castle then 1 else 0)) AND MOVE_FLAGS_IS_CASTLE)"

text \<open>\<open>en_passant_target_to_pawn_pos\<close>: \<open>None\<close> is the failed \<open>assert(0)\<close>.\<close>

definition en_passant_target_to_pawn_pos :: "board_pos \<Rightarrow> board_pos option" where
  "en_passant_target_to_pawn_pos ep_target =
     (if \<not> ep_target < 64 then None
      else let x = board_pos_to_x ep_target; y = board_pos_to_y ep_target
           in if y = 2 then Some (board_pos_from_xy x (y + 1))
              else if y = 5 then Some (board_pos_from_xy x (y - 1))
              else None)"

text \<open>\<open>move_new\<close>.  \<open>None\<close> is an assertion failure: \<open>board_piece_on_square\<close> asserts
  that its square is below 64, and \<open>en_passant_target_to_pawn_pos\<close> asserts the rank of
  the target.  \<open>Some MOVE_END\<close> is the early return of the source.  The castling test and
  the call of \<open>construct_move\<close> that end the function are \<open>move_new_finish\<close>.\<close>

definition move_new_finish ::
  "board \<Rightarrow> board_pos \<Rightarrow> board_pos \<Rightarrow> bool \<Rightarrow> int \<Rightarrow> bool \<Rightarrow> int \<Rightarrow> board_pos \<Rightarrow> move" where
  "move_new_finish b src dst is_promote promote_piece is_capture capture_piece capture_pos =
     (let is_castle =
            (((src = board_pos_from_xy 4 0 \<and>
                (dst = board_pos_from_xy 2 0 \<or> dst = board_pos_from_xy 6 0))
              \<or> (src = board_pos_from_xy 4 7 \<and>
                (dst = board_pos_from_xy 2 7 \<or> dst = board_pos_from_xy 6 7)))
             \<and> board_piece_on_square b src = int KING)
      in construct_move (flags b) src dst is_promote promote_piece is_capture capture_piece
           capture_pos is_castle)"

definition move_new :: "board_pos \<Rightarrow> board_pos \<Rightarrow> bool \<Rightarrow> int \<Rightarrow> board \<Rightarrow> move option" where
  "move_new src dst is_promote promote_piece b =
     (if \<not> dst < 64 then None
      else
        let capture_piece = board_piece_on_square b dst in
        if capture_piece \<noteq> - 1 \<and> board_player_on_square b dst = int (board_player_to_move b)
        then Some MOVE_END
        else
          let is_capture = (capture_piece \<noteq> - 1);
              capture_pos = (if capture_piece \<noteq> - 1 then dst else BOARD_POS_INVALID) in
          if dst = board_get_en_passant_target b \<and> \<not> src < 64 then None
          else if dst = board_get_en_passant_target b \<and> board_piece_on_square b src = int PAWN
          then
            (case en_passant_target_to_pawn_pos (board_get_en_passant_target b) of
               None \<Rightarrow> None
             | Some ep_pos \<Rightarrow>
                 if \<not> ep_pos < 64 then None
                 else if board_piece_on_square b ep_pos \<noteq> int PAWN then Some MOVE_END
                 else Some (move_new_finish b src dst is_promote promote_piece True
                              (board_piece_on_square b ep_pos) ep_pos))
          else Some (move_new_finish b src dst is_promote promote_piece is_capture
                       capture_piece capture_pos))"

subsection \<open>Reading the fields of a constructed move\<close>

text \<open>The fields of \<open>construct_move\<close> do not overlap, so the sum is a bitwise or, and
  every accessor reads back what was packed, cut to the width of its field.\<close>

lemma move_masks:
  "MOVE_FLAGS_PREV_FLAGS = mask 16"
  "MOVE_FLAGS_SRC = push_bit 16 (mask 6)"
  "MOVE_FLAGS_DST = push_bit 22 (mask 6)"
  "MOVE_FLAGS_IS_PROMOTE = push_bit 28 (mask 1)"
  "MOVE_FLAGS_PROMOTE_PIECE = push_bit 29 (mask 3)"
  "MOVE_FLAGS_IS_CAPTURE = push_bit 32 (mask 1)"
  "MOVE_FLAGS_CAPTURE_PIECE = push_bit 33 (mask 3)"
  "MOVE_FLAGS_CAPTURE_SQUARE = push_bit 36 (mask 6)"
  "MOVE_FLAGS_IS_CASTLE = push_bit 42 (mask 1)"
  by (simp_all add: move_flag_defs mask_eq_exp_minus_1 push_bit_eq_mult)

lemma move_shifts:
  "MOVE_SHIFT_SRC = 16" "MOVE_SHIFT_DST = 22" "MOVE_SHIFT_IS_PROMOTE = 28"
  "MOVE_SHIFT_PROMOTE_PIECE = 29" "MOVE_SHIFT_IS_CAPTURE = 32" "MOVE_SHIFT_CAPTURE_PIECE = 33"
  "MOVE_SHIFT_CAPTURE_SQUARE = 36" "MOVE_SHIFTS_IS_CASTLE = 42"
  by (simp_all add: move_flag_defs)

lemma construct_move_or:
  "construct_move bf src dst ip pp ic cp cs cas =
     (ucast ((ucast bf) :: 16 word)) AND MOVE_FLAGS_PREV_FLAGS
     OR ((push_bit MOVE_SHIFT_SRC (of_nat src)) AND MOVE_FLAGS_SRC)
     OR ((push_bit MOVE_SHIFT_DST (of_nat dst)) AND MOVE_FLAGS_DST)
     OR (push_bit MOVE_SHIFT_IS_PROMOTE (if ip then 1 else 0))
     OR ((push_bit MOVE_SHIFT_PROMOTE_PIECE (word_of_int pp)) AND MOVE_FLAGS_PROMOTE_PIECE)
     OR (push_bit MOVE_SHIFT_IS_CAPTURE (if ic then 1 else 0))
     OR ((push_bit MOVE_SHIFT_CAPTURE_PIECE (word_of_int cp)) AND MOVE_FLAGS_CAPTURE_PIECE)
     OR ((push_bit MOVE_SHIFT_CAPTURE_SQUARE (of_nat cs)) AND MOVE_FLAGS_CAPTURE_SQUARE)
     OR ((push_bit MOVE_SHIFTS_IS_CASTLE (if cas then 1 else 0)) AND MOVE_FLAGS_IS_CASTLE)"
  unfolding construct_move_def move_masks move_shifts
  apply (subst disjunctive_add_eq_or, (rule bit_eqI, auto simp: bit_simps)[1])+
  apply (simp only: or.assoc)
  done


lemma bit_move_fields:
  "bit (ucast (ucast (bf :: 32 word) :: 16 word) AND mask 16 :: 64 word) n \<longleftrightarrow> n < 16 \<and> bit bf n"
  "bit (push_bit 16 (of_nat src) AND push_bit 16 (mask 6) :: 64 word) n
     \<longleftrightarrow> 16 \<le> n \<and> n < 22 \<and> bit src (n - 16)"
  "bit (push_bit 22 (of_nat dst) AND push_bit 22 (mask 6) :: 64 word) n
     \<longleftrightarrow> 22 \<le> n \<and> n < 28 \<and> bit dst (n - 22)"
  "bit (push_bit 28 (if ip then 1 else 0) :: 64 word) n \<longleftrightarrow> n = 28 \<and> ip"
  "bit (push_bit 29 (word_of_int pp) AND push_bit 29 (mask 3) :: 64 word) n
     \<longleftrightarrow> 29 \<le> n \<and> n < 32 \<and> bit pp (n - 29)"
  "bit (push_bit 32 (if ic then 1 else 0) :: 64 word) n \<longleftrightarrow> n = 32 \<and> ic"
  "bit (push_bit 33 (word_of_int cp) AND push_bit 33 (mask 3) :: 64 word) n
     \<longleftrightarrow> 33 \<le> n \<and> n < 36 \<and> bit cp (n - 33)"
  "bit (push_bit 36 (of_nat cs) AND push_bit 36 (mask 6) :: 64 word) n
     \<longleftrightarrow> 36 \<le> n \<and> n < 42 \<and> bit cs (n - 36)"
  "bit (push_bit 42 (if cas then 1 else 0) AND push_bit 42 (mask 1) :: 64 word) n
     \<longleftrightarrow> n = 42 \<and> cas"
  by (auto simp: bit_simps)

lemma bit_construct_move:
  "bit (construct_move bf src dst ip pp ic cp cs cas) n \<longleftrightarrow>
     (n < 16 \<and> bit bf n)
     \<or> (16 \<le> n \<and> n < 22 \<and> bit src (n - 16))
     \<or> (22 \<le> n \<and> n < 28 \<and> bit dst (n - 22))
     \<or> (n = 28 \<and> ip)
     \<or> (29 \<le> n \<and> n < 32 \<and> bit pp (n - 29))
     \<or> (n = 32 \<and> ic)
     \<or> (33 \<le> n \<and> n < 36 \<and> bit cp (n - 33))
     \<or> (36 \<le> n \<and> n < 42 \<and> bit cs (n - 36))
     \<or> (n = 42 \<and> cas)"
  unfolding construct_move_or move_masks move_shifts
  by (simp only: bit_or_iff bit_move_fields)


lemma construct_move_prev_flags:
  "construct_move bf src dst ip pp ic cp cs cas AND MOVE_FLAGS_PREV_FLAGS
     = ucast (bf AND BOARD_FLAGS_LOW)"
proof -
  have low: "BOARD_FLAGS_LOW = mask 16"
    by (simp add: BOARD_FLAGS_LOW_def mask_eq_exp_minus_1)
  show ?thesis
    unfolding move_masks low
    by (rule bit_eqI) (auto simp: bit_simps bit_construct_move)
qed

lemma construct_move_src_word:
  "drop_bit 16 (construct_move bf src dst ip pp ic cp cs cas AND push_bit 16 (mask 6))
     = of_nat (take_bit 6 src)"
  by (rule bit_eqI) (auto simp: bit_simps bit_construct_move)

lemma construct_move_dst_word:
  "drop_bit 22 (construct_move bf src dst ip pp ic cp cs cas AND push_bit 22 (mask 6))
     = of_nat (take_bit 6 dst)"
  by (rule bit_eqI) (auto simp: bit_simps bit_construct_move)


lemma construct_move_promo_word:
  "drop_bit 29 (construct_move bf src dst ip pp ic cp cs cas AND push_bit 29 (mask 3))
     = word_of_int (take_bit 3 pp)"
  by (rule bit_eqI) (auto simp: bit_simps bit_construct_move)

lemma construct_move_cap_piece_word:
  "drop_bit 33 (construct_move bf src dst ip pp ic cp cs cas AND push_bit 33 (mask 3))
     = word_of_int (take_bit 3 cp)"
  by (rule bit_eqI) (auto simp: bit_simps bit_construct_move)

lemma construct_move_cap_square_word:
  "drop_bit 36 (construct_move bf src dst ip pp ic cp cs cas AND push_bit 36 (mask 6))
     = of_nat (take_bit 6 cs)"
  by (rule bit_eqI) (auto simp: bit_simps bit_construct_move)

lemma and_single_bit:
  "(w :: 64 word) AND push_bit k (mask 1) \<noteq> 0 \<longleftrightarrow> bit w k"
  by (simp add: push_bit_of_1 and_exp_eq_0_iff_not_bit)

lemma drop_and_single_bit:
  "drop_bit k ((w :: 64 word) AND push_bit k (mask 1)) \<noteq> 0 \<longleftrightarrow> bit w k"
proof -
  have "drop_bit k (w AND push_bit k (mask 1)) = of_bool (bit w k)"
    by (rule bit_eqI) (auto simp: bit_simps bit_of_bool_iff dest: bit_imp_le_length)
  then show ?thesis
    by simp
qed

lemma construct_move_flag_bits:
  "construct_move bf src dst ip pp ic cp cs cas AND push_bit 28 (mask 1) \<noteq> 0 \<longleftrightarrow> ip"
  "construct_move bf src dst ip pp ic cp cs cas AND push_bit 32 (mask 1) \<noteq> 0 \<longleftrightarrow> ic"
  "drop_bit 42 (construct_move bf src dst ip pp ic cp cs cas AND push_bit 42 (mask 1)) \<noteq> 0
     \<longleftrightarrow> cas"
  unfolding and_single_bit drop_and_single_bit
  by (simp_all add: bit_construct_move)

lemma unat_of_nat_take_bit6: "unat (of_nat (take_bit 6 n) :: 64 word) = n mod 64"
proof -
  have "take_bit 6 n < 2 ^ 64"
    by (rule less_trans[OF take_bit_nat_less_exp]) simp
  then show ?thesis
    by (simp add: unat_of_nat take_bit_eq_mod)
qed

lemma uint_of_int_take_bit3: "uint (word_of_int (take_bit 3 k) :: 64 word) = k mod 8"
proof -
  have "take_bit 3 k < 2 ^ 64"
    by (rule less_trans[OF take_bit_int_less_exp]) simp
  moreover have "0 \<le> take_bit 3 k" by simp
  ultimately show ?thesis
    by (simp add: uint_word_of_int take_bit_eq_mod)
qed

lemma construct_move_fields:
  "move_source_square (construct_move bf src dst ip pp ic cp cs cas) = src mod 64"
  "move_destination_square (construct_move bf src dst ip pp ic cp cs cas) = dst mod 64"
  "move_is_promotion (construct_move bf src dst ip pp ic cp cs cas) = ip"
  "move_promotion_piece (construct_move bf src dst ip pp ic cp cs cas)
     = (if ip then pp mod 8 else - 1)"
  "move_is_capture (construct_move bf src dst ip pp ic cp cs cas) = ic"
  "move_capture_piece (construct_move bf src dst ip pp ic cp cs cas)
     = (if ic then cp mod 8 else - 1)"
  "move_capture_square (construct_move bf src dst ip pp ic cp cs cas)
     = (if ic then cs mod 64 else BOARD_POS_INVALID)"
  "move_is_castle (construct_move bf src dst ip pp ic cp cs cas) = cas"
  unfolding move_source_square_def move_destination_square_def move_is_promotion_def
    move_promotion_piece_def move_is_capture_def move_capture_piece_def
    move_capture_square_def move_is_castle_def move_masks move_shifts
  by (simp_all only: construct_move_src_word construct_move_dst_word construct_move_promo_word
        construct_move_cap_piece_word construct_move_cap_square_word construct_move_flag_bits
        unat_of_nat_take_bit6 uint_of_int_take_bit3 simp_thms if_True if_False)
     simp_all

lemma construct_move_not_MOVE_END:
  "construct_move bf src dst ip pp ic cp cs cas \<noteq> MOVE_END"
proof
  assume "construct_move bf src dst ip pp ic cp cs cas = MOVE_END"
  then have "bit (construct_move bf src dst ip pp ic cp cs cas) 63 = bit MOVE_END 63" by simp
  then show False
    by (simp add: bit_construct_move MOVE_END_def bit_simps)
qed

section \<open>Attack tables (move_gen.c)\<close>

text \<open>\<open>move_gen_init_knights\<close> and \<open>move_gen_init_kings\<close> fill one table entry per
  square; \<open>move_gen_knights pos\<close> and \<open>move_gen_kings pos\<close> are the entries the loops
  leave at index \<open>pos\<close> (\<open>pos < 64\<close>).\<close>

definition knight_step :: "int \<Rightarrow> int \<Rightarrow> int \<Rightarrow> int \<Rightarrow> bitboard \<Rightarrow> bitboard" where
  "knight_step x y i j moves =
     (let s1 = board_pos_from_xy (x + i * 1) (y + j * 2);
          s2 = board_pos_from_xy (x + i * 2) (y + j * 1);
          moves1 = (if s1 \<noteq> BOARD_POS_INVALID then bitboard_set_square moves s1 else moves)
      in if s2 \<noteq> BOARD_POS_INVALID then bitboard_set_square moves1 s2 else moves1)"

definition move_gen_knights :: "board_pos \<Rightarrow> bitboard" where
  "move_gen_knights pos =
     fold (\<lambda>i moves. fold (knight_step (board_pos_to_x pos) (board_pos_to_y pos) i) [- 1, 1] moves)
       [- 1, 1] 0"

definition king_step :: "int \<Rightarrow> int \<Rightarrow> int \<Rightarrow> int \<Rightarrow> bitboard \<Rightarrow> bitboard" where
  "king_step x y i j moves =
     (if i = 0 \<and> j = 0 then moves
      else let square = board_pos_from_xy (x + i) (y + j)
           in if square \<noteq> BOARD_POS_INVALID then bitboard_set_square moves square else moves)"

definition move_gen_kings :: "board_pos \<Rightarrow> bitboard" where
  "move_gen_kings pos =
     fold (\<lambda>i moves. fold (king_step (board_pos_to_x pos) (board_pos_to_y pos) i) [- 1, 0, 1] moves)
       [- 1, 0, 1] 0"

text \<open>\<open>gen_ray_moves\<close>: the \<open>while\<close> loop walks from the square next to \<open>(x, y)\<close> in
  direction \<open>(dx, dy)\<close> until it leaves the board or meets an occupied square.  For each of
  the eight directions the source passes, it leaves the board after at most seven steps;
  \<open>ray_loop\<close> runs it for the eight iterations \<open>gen_ray_moves\<close> gives it.\<close>

fun ray_loop :: "nat \<Rightarrow> bitboard \<Rightarrow> int \<Rightarrow> int \<Rightarrow> int \<Rightarrow> int \<Rightarrow> bitboard \<Rightarrow> bitboard" where
  "ray_loop 0 occupancy x y dx dy moves = moves"
| "ray_loop (Suc n) occupancy x y dx dy moves =
     (if x \<le> 7 \<and> y \<le> 7 \<and> x \<ge> 0 \<and> y \<ge> 0 then
        (if bitboard_check_square occupancy (board_pos_from_xy x y)
         then bitboard_set_square moves (board_pos_from_xy x y)
         else ray_loop n occupancy (x + dx) (y + dy) dx dy
                (bitboard_set_square moves (board_pos_from_xy x y)))
      else moves)"

definition gen_ray_moves :: "bitboard \<Rightarrow> int \<Rightarrow> int \<Rightarrow> int \<Rightarrow> int \<Rightarrow> bitboard" where
  "gen_ray_moves occupancy x y dx dy = ray_loop 8 occupancy (x + dx) (y + dy) dx dy 0"

definition gen_rook_moves :: "bitboard \<Rightarrow> board_pos \<Rightarrow> bitboard" where
  "gen_rook_moves occupancy square =
     (let x = board_pos_to_x square; y = board_pos_to_y square
      in gen_ray_moves occupancy x y 1 0 OR gen_ray_moves occupancy x y (- 1) 0
         OR gen_ray_moves occupancy x y 0 1 OR gen_ray_moves occupancy x y 0 (- 1))"

definition gen_bishop_moves :: "bitboard \<Rightarrow> board_pos \<Rightarrow> bitboard" where
  "gen_bishop_moves occupancy square =
     (let x = board_pos_to_x square; y = board_pos_to_y square
      in gen_ray_moves occupancy x y 1 1 OR gen_ray_moves occupancy x y (- 1) 1
         OR gen_ray_moves occupancy x y 1 (- 1) OR gen_ray_moves occupancy x y (- 1) (- 1))"

text \<open>
  Modelled from the spec: the magic multipliers, masks and bit widths
  (\<open>rook_magic_factors\<close>, \<open>rook_magic_masks\<close>, \<open>rook_magic_bits\<close> and the bishop ones,
  declared \<open>extern\<close> in found_magics.h) are not among the sources.  The spec says of the
  table that \<open>move_gen_init_sliders\<close> fills with them: for every blocker subset of a
  square's mask, the entry equals the true attack set of that square under that
  occupancy, including the first blocker on each ray.  The lookups therefore return what
  \<open>gen_rook_moves\<close> and \<open>gen_bishop_moves\<close>, the source's own ray walk, compute.
\<close>

definition rook_move_lookup :: "bitboard \<Rightarrow> board_pos \<Rightarrow> bitboard" where
  "rook_move_lookup occupancy square = gen_rook_moves occupancy square"

definition bishop_move_lookup :: "bitboard \<Rightarrow> board_pos \<Rightarrow> bitboard" where
  "bishop_move_lookup occupancy square = gen_bishop_moves occupancy square"

definition queen_magic_lookup :: "bitboard \<Rightarrow> board_pos \<Rightarrow> bitboard" where
  "queen_magic_lookup occupancy square =
     rook_move_lookup occupancy square OR bishop_move_lookup occupancy square"

text \<open>\<open>move_gen_init_pawns\<close>: the entry \<open>move_gen_pawns[player][double_ahead][ahead][pos]\<close>.\<close>

definition move_gen_pawns :: "nat \<Rightarrow> bitboard \<Rightarrow> bitboard \<Rightarrow> board_pos \<Rightarrow> bitboard" where
  "move_gen_pawns player double_ahead ahead pos =
     (let x = board_pos_to_x pos; y = board_pos_to_y pos;
          dir = (if player = WHITE then 1 else - 1);
          ahead_present = (y + dir \<ge> 0 \<and> y + dir < 8);
          moves1 =
            (if ahead AND 2 = 0 \<and> ahead_present then
               (if double_ahead = 0 \<and> ((player = WHITE \<and> y = 1) \<or> (player = BLACK \<and> y = 6))
                then bitboard_set_square
                       (bitboard_set_square 0 (board_pos_from_xy x (y + dir)))
                       (board_pos_from_xy x (y + 2 * dir))
                else bitboard_set_square 0 (board_pos_from_xy x (y + dir)))
             else 0);
          moves2 =
            (if x \<ge> 1 \<and> ahead AND 1 \<noteq> 0 \<and> ahead_present
             then bitboard_set_square moves1 (board_pos_from_xy (x - 1) (y + dir)) else moves1)
      in if x \<le> 6 \<and> ahead AND 4 \<noteq> 0 \<and> ahead_present
         then bitboard_set_square moves2 (board_pos_from_xy (x + 1) (y + dir)) else moves2)"

text \<open>\<open>pawn_move_lookup\<close>.  A shift count of 64 or more (a white pawn or a white ghost
  pawn on the last two ranks) is undefined in C; \<open>drop_bit\<close> yields 0 there.  The table
  entry read does not depend on those bits: see \<open>move_gen_pawns_double_irrelevant\<close> and
  \<open>move_gen_pawns_last_rank\<close> below.\<close>

definition pawn_move_lookup :: "bitboard \<Rightarrow> board_pos \<Rightarrow> nat \<Rightarrow> bitboard" where
  "pawn_move_lookup occupancy square player =
     (let dir = (if player = WHITE then 1 else - 1);
          forward_shift = int square - 1 + dir * 8;
          forward_rank =
            (if forward_shift \<ge> 0 then drop_bit (nat forward_shift) occupancy AND 7
             else push_bit (nat (- forward_shift)) occupancy AND 7);
          double_forward_shift = int square + dir * 16;
          double_forward_rank =
            (if double_forward_shift > 0 then drop_bit (nat double_forward_shift) occupancy AND 1
             else push_bit (nat (- double_forward_shift)) occupancy AND 1)
      in move_gen_pawns player double_forward_rank forward_rank square)"

lemma move_gen_pawns_double_irrelevant:
  assumes "\<not> (player = WHITE \<and> board_pos_to_y pos = 1)"
    and "\<not> (player = BLACK \<and> board_pos_to_y pos = 6)"
  shows "move_gen_pawns player d ahead pos = move_gen_pawns player d' ahead pos"
proof -
  have "\<not> ((player = WHITE \<and> board_pos_to_y pos = 1) \<or> (player = BLACK \<and> board_pos_to_y pos = 6))"
    using assms by blast
  then show ?thesis
    unfolding move_gen_pawns_def Let_def by (simp only: simp_thms if_False if_True)
qed

lemma move_gen_pawns_last_rank:
  assumes "board_pos_to_y pos = 7"
  shows "move_gen_pawns WHITE d ahead pos = 0"
proof -
  have "\<not> (board_pos_to_y pos + 1 \<ge> 0 \<and> board_pos_to_y pos + 1 < 8)"
    using assms by simp
  then show ?thesis
    unfolding move_gen_pawns_def Let_def by (simp only: simp_thms if_False if_True)
qed

text \<open>\<open>move_gen_reg_moves_mask\<close>; the \<open>default: assert(0)\<close> of the \<open>switch\<close> is not
  reached, every caller passes a piece kind 0..5.\<close>

definition move_gen_reg_moves_mask ::
  "bitboard \<Rightarrow> bitboard \<Rightarrow> nat \<Rightarrow> nat \<Rightarrow> board_pos \<Rightarrow> bitboard" where
  "move_gen_reg_moves_mask occupancy_for_sliders occupancy_for_pawns piece player square =
     (if piece = KING then move_gen_kings square
      else if piece = KNIGHT then move_gen_knights square
      else if piece = PAWN then pawn_move_lookup occupancy_for_pawns square player
      else if piece = ROOK then rook_move_lookup occupancy_for_sliders square
      else if piece = BISHOP then bishop_move_lookup occupancy_for_sliders square
      else if piece = QUEEN then queen_magic_lookup occupancy_for_sliders square
      else 0)"

definition board_occupancy_for_sliders_lookups :: "board \<Rightarrow> bitboard" where
  "board_occupancy_for_sliders_lookups b = (players b ! WHITE) OR (players b ! BLACK)"

definition board_occupancy_for_pawns_lookups :: "board \<Rightarrow> bitboard" where
  "board_occupancy_for_pawns_lookups b =
     (if flags b AND BOARD_FLAGS_EP_PRESENT \<noteq> 0
      then bitboard_set_square ((players b ! WHITE) OR (players b ! BLACK))
             (unat (flags b AND BOARD_FLAGS_EP_SQUARE))
      else (players b ! WHITE) OR (players b ! BLACK))"

text \<open>\<open>!player\<close> for a player 0 or 1.\<close>

definition other_player :: "nat \<Rightarrow> nat" where
  "other_player player = (if player = 0 then 1 else 0)"

definition board_is_square_attacked :: "board \<Rightarrow> board_pos \<Rightarrow> nat \<Rightarrow> bitboard" where
  "board_is_square_attacked b square attacking_player =
     (let defending_player = other_player attacking_player;
          attackers_mask = players b ! attacking_player;
          occ_slide = board_occupancy_for_sliders_lookups b;
          occ_pawn = board_occupancy_for_pawns_lookups b;
          hits1 = fold (\<lambda>piece attack_hits. attack_hits OR
                     (move_gen_reg_moves_mask occ_slide occ_pawn piece defending_player square
                        AND (pieces b ! piece)))
                   [KING, PAWN, KNIGHT] 0;
          hits2 = fold (\<lambda>piece attack_hits. attack_hits OR
                     (move_gen_reg_moves_mask occ_slide occ_pawn piece defending_player square
                        AND ((pieces b ! piece) OR (pieces b ! QUEEN))))
                   [ROOK, BISHOP] hits1
      in hits2 AND attackers_mask)"

text \<open>\<open>board_player_in_check\<close>; \<open>None\<close> is the failed assertion that the player has
  exactly one king.\<close>

definition board_player_in_check :: "board \<Rightarrow> nat \<Rightarrow> bitboard option" where
  "board_player_in_check b player =
     (let king_mask = (pieces b ! KING) AND (players b ! player)
      in if bitboard_popcount king_mask \<noteq> 1 then None
         else Some (board_is_square_attacked b (bitboard_scan_lsb king_mask) (other_player player)))"

section \<open>Making and unmaking moves (move_gen.c)\<close>

text \<open>The four updates the source writes as
  \<open>board->players[p] = bitboard_set_square(board->players[p], sq)\<close> and alike.\<close>

definition set_player_sq :: "board \<Rightarrow> nat \<Rightarrow> board_pos \<Rightarrow> board" where
  "set_player_sq b p sq = b\<lparr>players := (players b)[p := bitboard_set_square (players b ! p) sq]\<rparr>"

definition clear_player_sq :: "board \<Rightarrow> nat \<Rightarrow> board_pos \<Rightarrow> board" where
  "clear_player_sq b p sq =
     b\<lparr>players := (players b)[p := bitboard_clear_square (players b ! p) sq]\<rparr>"

definition set_piece_sq :: "board \<Rightarrow> nat \<Rightarrow> board_pos \<Rightarrow> board" where
  "set_piece_sq b p sq = b\<lparr>pieces := (pieces b)[p := bitboard_set_square (pieces b ! p) sq]\<rparr>"

definition clear_piece_sq :: "board \<Rightarrow> nat \<Rightarrow> board_pos \<Rightarrow> board" where
  "clear_piece_sq b p sq = b\<lparr>pieces := (pieces b)[p := bitboard_clear_square (pieces b ! p) sq]\<rparr>"

definition board_clear_castling :: "board \<Rightarrow> nat \<Rightarrow> nat \<Rightarrow> board" where
  "board_clear_castling b player side =
     (let flag = (if player = WHITE
                  then (if side = QUEEN then BOARD_FLAGS_W_CASTLE_QUEEN
                        else BOARD_FLAGS_W_CASTLE_KING)
                  else (if side = QUEEN then BOARD_FLAGS_B_CASTLE_QUEEN
                        else BOARD_FLAGS_B_CASTLE_KING))
      in b\<lparr>flags := flags b AND NOT flag\<rparr>)"

text \<open>In the functions below \<open>None\<close> is a failed assertion of the source, or an index
  outside \<open>pieces[6]\<close>.\<close>

definition move_gen_make_castle :: "board \<Rightarrow> move \<Rightarrow> board option" where
  "move_gen_make_castle b m =
     (let dst = move_destination_square m;
          src = move_source_square m;
          player = board_player_to_move b;
          side = (if board_pos_to_x dst = 2 then QUEEN else KING);
          y = (if player = WHITE then 0 else 7);
          rook_src = (if side = QUEEN then board_pos_from_xy 0 y else board_pos_from_xy 7 y);
          rook_dst = (if side = QUEEN then board_pos_from_xy 3 y else board_pos_from_xy 5 y)
      in if \<not> (board_pos_to_x dst = 2 \<or> board_pos_to_x dst = 6) then None
         else if board_piece_on_square b src \<noteq> int KING then None
         else if move_is_capture m then None
         else if move_is_promotion m then None
         else if board_pos_to_y dst \<noteq> y then None
         else
           let b1 = clear_player_sq b player src;
               b2 = clear_piece_sq b1 KING src;
               b3 = set_player_sq b2 player dst;
               b4 = set_piece_sq b3 KING dst;
               b5 = clear_player_sq b4 player rook_src;
               b6 = clear_piece_sq b5 ROOK rook_src;
               b7 = set_player_sq b6 player rook_dst;
               b8 = set_piece_sq b7 ROOK rook_dst
           in Some (board_clear_castling (board_clear_castling b8 player QUEEN) player KING))"

text \<open>The four-way test on a rook's home square, used for a rook that moves (with the
  mover as \<open>owner\<close>) and for a rook that is captured (with the opponent as \<open>owner\<close>).\<close>

definition revoke_rook_castling :: "board \<Rightarrow> nat \<Rightarrow> board_pos \<Rightarrow> board" where
  "revoke_rook_castling b owner square =
     (if owner = WHITE \<and> square = board_pos_from_xy 0 0 then board_clear_castling b WHITE QUEEN
      else if owner = WHITE \<and> square = board_pos_from_xy 7 0 then board_clear_castling b WHITE KING
      else if owner = BLACK \<and> square = board_pos_from_xy 0 7 then board_clear_castling b BLACK QUEEN
      else if owner = BLACK \<and> square = board_pos_from_xy 7 7 then board_clear_castling b BLACK KING
      else b)"

text \<open>The capture block of \<open>board_make_move\<close> (\<open>if (move_is_capture(move)) { ... }\<close>).\<close>

definition make_capture :: "board \<Rightarrow> move \<Rightarrow> board_pos \<Rightarrow> board_pos \<Rightarrow> nat \<Rightarrow> board option" where
  "make_capture b m src dst player =
     (let opponent = other_player player;
          ep_target = board_get_en_passant_target b
      in case (if ep_target \<noteq> BOARD_POS_INVALID \<and> ep_target = dst
               then en_passant_target_to_pawn_pos ep_target
               else Some (move_capture_square m)) of
           None \<Rightarrow> None
         | Some cap_square \<Rightarrow>
             if \<not> cap_square < 64 then None
             else
               let cap_piece = board_piece_on_square b cap_square
               in if cap_piece = - 1 then None
                  else if cap_square = src then None
                  else if board_player_on_square b cap_square = int player then None
                  else
                    let b1 = clear_player_sq b opponent cap_square;
                        b2 = clear_piece_sq b1 (nat cap_piece) cap_square
                    in Some (if cap_piece = int ROOK
                             then revoke_rook_castling b2 opponent cap_square else b2))"

text \<open>The \<open>else\<close> branch of \<open>board_make_move\<close>: a move that is not a castle.\<close>

definition make_regular :: "board \<Rightarrow> move \<Rightarrow> board option" where
  "make_regular b m =
     (let src = move_source_square m;
          dst = move_destination_square m;
          piece = board_piece_on_square b src;
          dst_piece = (if move_is_promotion m then move_promotion_piece m else piece);
          player = board_player_to_move b;
          opponent = other_player player
      in if piece = - 1 then None
         else if bitboard_check_square (players b ! opponent) dst \<and> \<not> move_is_capture m then None
         else
           let b1 = (if piece = int KING
                     then board_clear_castling (board_clear_castling b player KING) player QUEEN
                     else b);
               b2 = (if piece = int ROOK then revoke_rook_castling b1 player src else b1)
           in case (if move_is_capture m then make_capture b2 m src dst player else Some b2) of
                None \<Rightarrow> None
              | Some b3 \<Rightarrow>
                  if \<not> (0 \<le> dst_piece \<and> dst_piece < 6) then None
                  else
                    let b4 = set_piece_sq b3 (nat dst_piece) dst;
                        b5 = set_player_sq b4 player dst;
                        b6 = clear_piece_sq b5 (nat piece) src
                    in Some (clear_player_sq b6 player src))"

text \<open>The en-passant part of \<open>board_make_move\<close>: clear the flag, and set the target after
  a double pawn push.  \<open>src - dst\<close> is an \<open>int\<close> subtraction in the source.\<close>

definition make_update_ep :: "board \<Rightarrow> int \<Rightarrow> board_pos \<Rightarrow> board_pos \<Rightarrow> board option" where
  "make_update_ep b piece src dst =
     (let b1 = b\<lparr>flags := flags b AND NOT BOARD_FLAGS_EP_PRESENT\<rparr>
      in if piece = int PAWN \<and> (int src - int dst = 16 \<or> int dst - int src = 16) then
           (if \<not> ((board_player_to_move b1 = WHITE \<and> board_pos_to_y src = 1)
                   \<or> (board_player_to_move b1 = BLACK \<and> board_pos_to_y src = 6)) then None
            else
              let ep_target = (if dst > src then (src + 8) mod 256 else (src + 248) mod 256);
                  f1 = flags b1 OR BOARD_FLAGS_EP_PRESENT;
                  f2 = f1 AND NOT BOARD_FLAGS_EP_SQUARE
              in Some (b1\<lparr>flags := f2 OR (of_nat ep_target AND BOARD_FLAGS_EP_SQUARE)\<rparr>))
         else Some b1)"

text \<open>The turn counter: \<open>prev_turn\<close> is an \<open>int\<close>; the shifted value is cut to the 32-bit
  flags word and masked, so the counter wraps from 65535 to 0 and back.\<close>

definition set_turn_number :: "board \<Rightarrow> int \<Rightarrow> board" where
  "set_turn_number b turn =
     b\<lparr>flags := (flags b AND BOARD_FLAGS_LOW)
                 OR (push_bit BOARD_FLAGS_TURN_NUM_SHIFT (word_of_int turn) AND BOARD_FLAGS_TURN_NUM)\<rparr>"

definition board_make_move :: "board \<Rightarrow> move \<Rightarrow> board option" where
  "board_make_move b m =
     (if \<not> board_invariants b then None
      else if ucast (flags b AND BOARD_FLAGS_LOW) \<noteq> m AND MOVE_FLAGS_PREV_FLAGS then None
      else
        let src = move_source_square m;
            dst = move_destination_square m;
            piece = board_piece_on_square b src;
            player = board_player_to_move b
        in case (if move_is_castle m then move_gen_make_castle b m else make_regular b m) of
             None \<Rightarrow> None
           | Some b1 \<Rightarrow>
               (case make_update_ep b1 piece src dst of
                  None \<Rightarrow> None
                | Some b2 \<Rightarrow>
                    let b3 = (if player = BLACK
                              then set_turn_number b2 (int (board_get_full_turn_number b2) + 1)
                              else b2);
                        b4 = b3\<lparr>flags := flags b3 XOR BOARD_FLAGS_TURN\<rparr>
                    in if board_invariants b4 then Some b4 else None))"

text \<open>The rook's way back in \<open>board_unmake_move\<close> (\<open>if (move_is_castle(move)) { ... }\<close>).\<close>

definition unmake_castle_rook :: "board \<Rightarrow> board_pos \<Rightarrow> nat \<Rightarrow> board" where
  "unmake_castle_rook b dst player =
     (let side = (if board_pos_to_x dst = 2 then QUEEN else KING);
          rook_y = (if player = WHITE then 0 else 7);
          rook_src_x = (if side = QUEEN then 0 else 7);
          rook_dst_x = (if side = QUEEN then 3 else 5);
          rook_src = board_pos_from_xy rook_src_x rook_y;
          rook_dst = board_pos_from_xy rook_dst_x rook_y;
          b1 = set_player_sq b player rook_src;
          b2 = set_piece_sq b1 ROOK rook_src;
          b3 = clear_player_sq b2 player rook_dst
      in clear_piece_sq b3 ROOK rook_dst)"

definition board_unmake_move :: "board \<Rightarrow> move \<Rightarrow> board option" where
  "board_unmake_move b m =
     (if \<not> board_invariants b then None
      else
        let b0 = b\<lparr>flags := (flags b AND NOT BOARD_FLAGS_LOW) OR ucast (m AND MOVE_FLAGS_PREV_FLAGS)\<rparr>;
            src = move_source_square m;
            dst = move_destination_square m;
            piece_dst = board_piece_on_square b0 dst;
            piece_src = (if move_is_promotion m then int PAWN else piece_dst);
            player = board_player_to_move b0;
            opponent = other_player player
        in if piece_dst = - 1 then None
           else
             let b1 = (if player = BLACK
                       then set_turn_number b0 (int (board_get_full_turn_number b0) - 1)
                       else b0);
                 b2 = clear_piece_sq b1 (nat piece_dst) dst;
                 b3 = clear_player_sq b2 player dst;
                 b4 = set_piece_sq b3 (nat piece_src) src;
                 b5 = set_player_sq b4 player src
             in if move_is_capture m \<and> \<not> move_capture_piece m < 6 then None
                else
                  let b6 = (if move_is_capture m
                            then set_player_sq
                                   (set_piece_sq b5 (nat (move_capture_piece m))
                                      (move_capture_square m))
                                   opponent (move_capture_square m)
                            else b5);
                      b7 = (if move_is_castle m then unmake_castle_rook b6 dst player else b6)
                  in if board_invariants b7 then Some b7 else None)"

section \<open>The move generator (move_gen.c)\<close>

text \<open>\<open>struct __chess_util_move_gen\<close>.  The source holds a pointer to the board and
  changes the board through it; here the generator carries the board, and every function
  returns the generator it leaves behind.  The \<open>uint8_t\<close> fields are natural numbers
  below 256; the field \<open>done\<close> of the source is \<open>gen_done\<close>.\<close>

record move_gen =
  board :: board
  occupancy_for_sliders :: bitboard
  occupancy_for_pawns :: bitboard
  final_moves_mask :: bitboard
  cur_mode :: nat
  cur_piece_type :: nat
  cur_square :: nat
  cur_promotion :: nat
  cur_moves :: bitboard
  gen_done :: nat
  hit_move :: nat

definition MOVE_GEN_MODE_NORMAL :: nat where "MOVE_GEN_MODE_NORMAL = 0"
definition MOVE_GEN_MODE_CASTLE_KING :: nat where "MOVE_GEN_MODE_CASTLE_KING = 1"
definition MOVE_GEN_MODE_CASTLE_QUEEN :: nat where "MOVE_GEN_MODE_CASTLE_QUEEN = 2"
definition MOVE_GEN_MODE_END :: nat where "MOVE_GEN_MODE_END = 3"

definition MOVE_DONE_NORMAL :: nat where "MOVE_DONE_NORMAL = 1"
definition MOVE_DONE_CHECKMATE :: nat where "MOVE_DONE_CHECKMATE = 2"
definition MOVE_DONE_STALEMATE :: nat where "MOVE_DONE_STALEMATE = 3"

lemmas mode_defs = MOVE_GEN_MODE_NORMAL_def MOVE_GEN_MODE_CASTLE_KING_def
  MOVE_GEN_MODE_CASTLE_QUEEN_def MOVE_GEN_MODE_END_def MOVE_DONE_NORMAL_def
  MOVE_DONE_CHECKMATE_def MOVE_DONE_STALEMATE_def

definition move_gen_init :: "board \<Rightarrow> move_gen" where
  "move_gen_init b =
     \<lparr> board = b,
       occupancy_for_sliders = board_occupancy_for_sliders_lookups b,
       occupancy_for_pawns = board_occupancy_for_pawns_lookups b,
       final_moves_mask = NOT (players b ! board_player_to_move b),
       cur_mode = MOVE_GEN_MODE_NORMAL,
       cur_piece_type = 0,
       cur_square = 0,
       cur_promotion = KNIGHT,
       cur_moves = 0,
       gen_done = 0,
       hit_move = 0 \<rparr>"

definition move_gen_next_promote :: "move_gen \<Rightarrow> move_gen" where
  "move_gen_next_promote g =
     (let p = (cur_promotion g + 1) mod 256
      in g\<lparr>cur_promotion := (if p > QUEEN then KNIGHT else p)\<rparr>)"

definition move_gen_next_from_cur_moves :: "move_gen \<Rightarrow> (move \<times> move_gen) option" where
  "move_gen_next_from_cur_moves g =
     (if cur_moves g = 0 then None
      else
        let dst = bitboard_scan_lsb (cur_moves g);
            is_promote = (cur_piece_type g = PAWN \<and> (dst div 8 = 0 \<or> dst div 8 = 7));
            g1 = (if \<not> is_promote \<or> cur_promotion g = QUEEN
                  then g\<lparr>cur_moves := bitboard_clear_square (cur_moves g) dst\<rparr> else g);
            player = board_player_to_move (board g);
            opponent = other_player player;
            hit = bitboard_check_square (players (board g) ! opponent) dst;
            ep_target = board_get_en_passant_target (board g)
        in if hit \<and> board_piece_on_square (board g) dst = - 1 then None
           else if cur_piece_type g = PAWN \<and> ep_target \<noteq> BOARD_POS_INVALID \<and> dst = ep_target then
             (case en_passant_target_to_pawn_pos ep_target of
                None \<Rightarrow> None
              | Some capture_pos \<Rightarrow>
                  if board_piece_on_square (board g) capture_pos \<noteq> int PAWN then None
                  else Some (construct_move (flags (board g)) (cur_square g) dst is_promote
                               (int (cur_promotion g)) True (int PAWN) capture_pos False,
                             if is_promote then move_gen_next_promote g1 else g1))
           else Some (construct_move (flags (board g)) (cur_square g) dst is_promote
                        (int (cur_promotion g)) hit
                        (if hit then board_piece_on_square (board g) dst else 0)
                        (if hit then dst else 0) False,
                      if is_promote then move_gen_next_promote g1 else g1))"

definition board_can_castle :: "board \<Rightarrow> nat \<Rightarrow> nat \<Rightarrow> bool" where
  "board_can_castle b player side =
     (if player = WHITE \<and> side = KING then flags b AND BOARD_FLAGS_W_CASTLE_KING \<noteq> 0
      else if player = WHITE \<and> side = QUEEN then flags b AND BOARD_FLAGS_W_CASTLE_QUEEN \<noteq> 0
      else if player = BLACK \<and> side = KING then flags b AND BOARD_FLAGS_B_CASTLE_KING \<noteq> 0
      else flags b AND BOARD_FLAGS_B_CASTLE_QUEEN \<noteq> 0)"

text \<open>The first loop of \<open>move_gen_castle\<close>: the squares from \<open>x\<close> up to, and without,
  the rook's file \<open>xr\<close> are empty.  The king stands on file 4 and the rook on file 0 or 7,
  so the loop ends within the eight iterations it is given.\<close>

fun castle_path_clear :: "nat \<Rightarrow> bitboard \<Rightarrow> int \<Rightarrow> int \<Rightarrow> int \<Rightarrow> int \<Rightarrow> bool" where
  "castle_path_clear 0 occupancy x xr dir y = True"
| "castle_path_clear (Suc n) occupancy x xr dir y =
     (if x = xr then True
      else if bitboard_check_square occupancy (board_pos_from_xy x y) then False
      else castle_path_clear n occupancy (x + dir) xr dir y)"

definition move_gen_castle :: "move_gen \<Rightarrow> nat \<Rightarrow> nat \<Rightarrow> bool \<Rightarrow> (move \<times> move_gen) option" where
  "move_gen_castle g player side undo_move =
     (if \<not> board_can_castle (board g) player side then Some (MOVE_END, g)
      else
        let y = (if player = WHITE then 0 else 7);
            dir = (if side = QUEEN then - 1 else 1);
            king = board_pos_from_xy 4 y;
            rook = (if side = QUEEN then board_pos_from_xy 0 y else board_pos_from_xy 7 y)
        in if board_piece_on_square (board g) king \<noteq> int KING then None
           else if board_piece_on_square (board g) rook \<noteq> int ROOK then None
           else if board_player_on_square (board g) king \<noteq> int player then None
           else if board_player_on_square (board g) rook \<noteq> int player then None
           else if \<not> castle_path_clear 8 (occupancy_for_sliders g) (board_pos_to_x king + dir)
                      (board_pos_to_x rook) dir y
           then Some (MOVE_END, g)
           else if list_ex (\<lambda>i. board_is_square_attacked (board g)
                                   (board_pos_from_xy (board_pos_to_x king + i * dir) y)
                                   (other_player player) \<noteq> 0) [0, 1, 2]
           then Some (MOVE_END, g)
           else
             let m = construct_move (flags (board g)) king
                       (board_pos_from_xy (board_pos_to_x king + 2 * dir) y)
                       False 0 False 0 0 True
             in if undo_move then Some (m, g)
                else (case board_make_move (board g) m of
                        None \<Rightarrow> None
                      | Some b1 \<Rightarrow>
                          (case board_player_in_check b1 player of
                             None \<Rightarrow> None
                           | Some c \<Rightarrow> if c \<noteq> 0 then None else Some (m, g\<lparr>board := b1\<rparr>))))"

text \<open>The \<open>do ... while\<close> loop of \<open>move_gen_next\<close> that steps to the next square holding a
  piece of the current kind and of the player to move.  It answers \<open>True\<close> with the
  generator when the piece kinds are exhausted (the source then switches to the castles),
  and \<open>False\<close> with the generator standing on the square found.\<close>

definition advance_square :: "move_gen \<Rightarrow> move_gen" where
  "advance_square g =
     (let sq = (cur_square g + 1) mod 256
      in if sq \<ge> 64 then g\<lparr>cur_square := 0, cur_piece_type := (cur_piece_type g + 1) mod 256\<rparr>
         else g\<lparr>cur_square := sq\<rparr>)"

text \<open>A measure for the loop: the squares left before the piece kinds are exhausted,
  counting the wrap-around of the two \<open>uint8_t\<close> counters.\<close>

definition square_rank :: "move_gen \<Rightarrow> nat" where
  "square_rank g =
     (let pt = cur_piece_type g mod 256; sq = cur_square g mod 256
      in (if pt = 255 then 7 else if pt \<le> QUEEN then 6 - pt else 0) * 66
         + (if sq = 255 then 65 else if sq < 64 then 64 - sq else 0))"

lemma advance_square_rank:
  "cur_piece_type (advance_square g) \<le> QUEEN \<Longrightarrow> square_rank (advance_square g) < square_rank g"
proof -
  have "cur_piece_type g mod 256 < 256" "cur_square g mod 256 < 256" by simp_all
  moreover have "cur_piece_type g \<le> 5 \<Longrightarrow> cur_piece_type g mod 256 = cur_piece_type g" by simp
  moreover assume "cur_piece_type (advance_square g) \<le> QUEEN"
  ultimately show ?thesis
    by (auto simp: advance_square_def square_rank_def Let_def QUEEN_def mod_Suc split: if_splits)
qed

function advance_loop :: "move_gen \<Rightarrow> bitboard \<Rightarrow> bool \<times> move_gen" where
  "advance_loop g player_mask =
     (let g1 = advance_square g
      in if cur_piece_type g1 > QUEEN then (True, g1)
         else if bitboard_check_square ((pieces (board g1) ! cur_piece_type g1) AND player_mask)
                   (cur_square g1)
         then (False, g1)
         else advance_loop g1 player_mask)"
  by pat_completeness auto
termination
  by (relation "measure (\<lambda>(g, m). square_rank g)") (auto simp: advance_square_rank)

declare advance_loop.simps [simp del]

text \<open>The measure of \<open>move_gen_next\<close>: the mode, then the squares left, then the
  destinations left for the current square, then the promotions left for the current
  destination.\<close>

definition promotion_rank :: "move_gen \<Rightarrow> nat" where
  "promotion_rank g =
     (let p = cur_promotion g
      in if p \<le> QUEEN then 5 - p else if (p + 1) mod 256 \<le> QUEEN then 6 else 4)"

definition mode_rank :: "move_gen \<Rightarrow> nat" where
  "mode_rank g =
     (if cur_mode g = MOVE_GEN_MODE_NORMAL then 3
      else if cur_mode g = MOVE_GEN_MODE_CASTLE_KING then 2
      else if cur_mode g = MOVE_GEN_MODE_CASTLE_QUEEN then 1 else 0)"

lemma move_gen_next_promote_rank:
  "cur_promotion g \<noteq> QUEEN \<Longrightarrow> promotion_rank (move_gen_next_promote g) < promotion_rank g"
  by (auto simp: promotion_rank_def move_gen_next_promote_def Let_def QUEEN_def KNIGHT_def mod_Suc
           split: if_splits)

lemma move_gen_next_promote_fields [simp]:
  "cur_mode (move_gen_next_promote g) = cur_mode g"
  "cur_piece_type (move_gen_next_promote g) = cur_piece_type g"
  "cur_square (move_gen_next_promote g) = cur_square g"
  "cur_moves (move_gen_next_promote g) = cur_moves g"
  "board (move_gen_next_promote g) = board g"
  by (simp_all add: move_gen_next_promote_def Let_def)

lemma square_rank_cong:
  "cur_piece_type g' = cur_piece_type g \<Longrightarrow> cur_square g' = cur_square g \<Longrightarrow> square_rank g' = square_rank g"
  by (simp add: square_rank_def)

lemma mode_rank_cong: "cur_mode g' = cur_mode g \<Longrightarrow> mode_rank g' = mode_rank g"
  by (simp add: mode_rank_def)


lemma move_gen_next_from_cur_moves_measure:
  assumes "move_gen_next_from_cur_moves g = Some (m, g1)"
  shows "cur_mode g1 = cur_mode g \<and> cur_piece_type g1 = cur_piece_type g
         \<and> cur_square g1 = cur_square g \<and> board g1 = board g
         \<and> (bitboard_popcount (cur_moves g1) < bitboard_popcount (cur_moves g)
            \<or> (cur_moves g1 = cur_moves g \<and> promotion_rank g1 < promotion_rank g))"
proof -
  from assms have nz: "cur_moves g \<noteq> 0"
    by (auto simp: move_gen_next_from_cur_moves_def split: if_splits)
  define dst where "dst = bitboard_scan_lsb (cur_moves g)"
  have dst: "bit (cur_moves g) dst" unfolding dst_def by (rule bitboard_scan_lsb_bit[OF nz])
  define is_promote where
    "is_promote \<longleftrightarrow> cur_piece_type g = PAWN \<and> (dst div 8 = 0 \<or> dst div 8 = 7)"
  define g0 where "g0 = (if \<not> is_promote \<or> cur_promotion g = QUEEN
                  then g\<lparr>cur_moves := bitboard_clear_square (cur_moves g) dst\<rparr> else g)"
  from assms nz have g1: "g1 = (if is_promote then move_gen_next_promote g0 else g0)"
    by (auto simp: move_gen_next_from_cur_moves_def Let_def dst_def is_promote_def g0_def
             split: if_splits option.splits)
  show ?thesis
  proof (cases "\<not> is_promote \<or> cur_promotion g = QUEEN")
    case True
    then have "g0 = g\<lparr>cur_moves := bitboard_clear_square (cur_moves g) dst\<rparr>" by (simp add: g0_def)
    with g1 bitboard_popcount_clear[OF dst] show ?thesis by auto
  next
    case False
    then have "g0 = g" "is_promote" "cur_promotion g \<noteq> QUEEN" by (simp_all add: g0_def)
    with g1 move_gen_next_promote_rank[of g] show ?thesis by auto
  qed
qed

lemma move_gen_castle_fields:
  assumes "move_gen_castle g player side undo = Some (m, g1)"
  shows "g1\<lparr>board := board g\<rparr> = g" and "undo \<Longrightarrow> g1 = g"
  using assms
  by (auto simp: move_gen_castle_def Let_def split: if_splits option.splits)

lemma advance_square_mode [simp]: "cur_mode (advance_square g) = cur_mode g"
  by (simp add: advance_square_def Let_def)

lemma advance_loop_props:
  "advance_loop g pm = (fin, g1) \<Longrightarrow>
     cur_mode g1 = cur_mode g \<and> (\<not> fin \<longrightarrow> square_rank g1 < square_rank g)"
proof (induction g pm rule: advance_loop.induct)
  case (1 g pm)
  show ?case
  proof (cases "cur_piece_type (advance_square g) > QUEEN")
    case True
    with "1.prems" show ?thesis by (subst (asm) advance_loop.simps) (auto simp: Let_def)
  next
    case False
    note nq = this
    show ?thesis
    proof (cases "bitboard_check_square ((pieces (board (advance_square g)) ! cur_piece_type (advance_square g)) AND pm) (cur_square (advance_square g))")
      case True
      with nq "1.prems" advance_square_rank[of g] show ?thesis
        by (subst (asm) advance_loop.simps) (auto simp: Let_def)
    next
      case False
      with nq "1.prems" have "advance_loop (advance_square g) pm = (fin, g1)"
        by (subst (asm) advance_loop.simps) (auto simp: Let_def)
      from "1.IH"[OF refl _ _ this] nq False advance_square_rank[of g] show ?thesis
        by auto
    qed
  qed
qed


function move_gen_next :: "move_gen \<Rightarrow> bool \<Rightarrow> (move \<times> move_gen) option" where
  "move_gen_next g undo_moves =
     (if \<not> board_invariants (board g) then None
      else
        let player = board_player_to_move (board g);
            player_mask = players (board g) ! player
        in if cur_mode g = MOVE_GEN_MODE_END then
             (if hit_move g \<noteq> 0 then Some (MOVE_END, g\<lparr>gen_done := MOVE_DONE_NORMAL\<rparr>)
              else (case board_player_in_check (board g) player of
                      None \<Rightarrow> None
                    | Some c \<Rightarrow>
                        if c \<noteq> 0 then Some (MOVE_END, g\<lparr>gen_done := MOVE_DONE_CHECKMATE\<rparr>)
                        else Some (MOVE_END, g\<lparr>gen_done := MOVE_DONE_STALEMATE\<rparr>)))
           else if cur_mode g = MOVE_GEN_MODE_CASTLE_KING then
             (case move_gen_castle (g\<lparr>cur_mode := MOVE_GEN_MODE_CASTLE_QUEEN\<rparr>) player KING
                     undo_moves of
                None \<Rightarrow> None
              | Some (castle, g1) \<Rightarrow>
                  if castle \<noteq> MOVE_END then Some (castle, g1\<lparr>hit_move := 1\<rparr>)
                  else move_gen_next g1 undo_moves)
           else if cur_mode g = MOVE_GEN_MODE_CASTLE_QUEEN then
             (case move_gen_castle (g\<lparr>cur_mode := MOVE_GEN_MODE_END\<rparr>) player QUEEN
                     undo_moves of
                None \<Rightarrow> None
              | Some (castle, g1) \<Rightarrow>
                  if castle \<noteq> MOVE_END then Some (castle, g1\<lparr>hit_move := 1\<rparr>)
                  else move_gen_next g1 undo_moves)
           else if cur_mode g = MOVE_GEN_MODE_NORMAL then
             (if cur_moves g \<noteq> 0 then
                (case move_gen_next_from_cur_moves g of
                   None \<Rightarrow> None
                 | Some (next_move, g1) \<Rightarrow>
                     (case board_make_move (board g1) next_move of
                        None \<Rightarrow> None
                      | Some b1 \<Rightarrow>
                          (case board_player_in_check b1 player of
                             None \<Rightarrow> None
                           | Some c \<Rightarrow>
                               if c \<noteq> 0 then
                                 (case board_unmake_move b1 next_move of
                                    None \<Rightarrow> None
                                  | Some b2 \<Rightarrow> move_gen_next (g1\<lparr>board := b2\<rparr>) undo_moves)
                               else if undo_moves then
                                 (case board_unmake_move b1 next_move of
                                    None \<Rightarrow> None
                                  | Some b2 \<Rightarrow> Some (next_move, g1\<lparr>board := b2, hit_move := 1\<rparr>))
                               else Some (next_move, g1\<lparr>board := b1, hit_move := 1\<rparr>))))
              else
                (case advance_loop g player_mask of
                   (True, g1) \<Rightarrow>
                     move_gen_next (g1\<lparr>cur_mode := MOVE_GEN_MODE_CASTLE_KING\<rparr>) undo_moves
                 | (False, g1) \<Rightarrow>
                     move_gen_next
                       (g1\<lparr>cur_moves :=
                             move_gen_reg_moves_mask (occupancy_for_sliders g1)
                               (occupancy_for_pawns g1) (cur_piece_type g1) player (cur_square g1)
                             AND final_moves_mask g1\<rparr>)
                       undo_moves))
           else None)"
  by pat_completeness auto
termination
  apply (relation "measures [\<lambda>(g, u). mode_rank g, \<lambda>(g, u). square_rank g,
            \<lambda>(g, u). bitboard_popcount (cur_moves g), \<lambda>(g, u). promotion_rank g]")
  apply simp
  subgoal for g undo_moves player player_mask x2 castle g1
    using move_gen_castle_fields(1)[of "g\<lparr>cur_mode := MOVE_GEN_MODE_CASTLE_QUEEN\<rparr>" player KING undo_moves castle g1]
    apply (cases g1; cases g)
    apply (auto simp: mode_rank_def mode_defs)
    done
  subgoal for g undo_moves player player_mask x2 castle g1
    using move_gen_castle_fields(1)[of "g\<lparr>cur_mode := MOVE_GEN_MODE_END\<rparr>" player QUEEN undo_moves castle g1]
    apply (cases g1; cases g)
    apply (auto simp: mode_rank_def mode_defs)
    done
  subgoal for g undo_moves player player_mask x2 next_move g1 b1 c b2
    using move_gen_next_from_cur_moves_measure[of g next_move g1]
    by (auto simp: mode_rank_def square_rank_def promotion_rank_def)
  subgoal for g undo_moves player player_mask fin g1
    using advance_loop_props[of g player_mask True g1]
    by (auto simp: mode_rank_def mode_defs)
  subgoal for g undo_moves player player_mask fin g1
    using advance_loop_props[of g player_mask False g1]
    by (auto simp: mode_rank_def mode_defs square_rank_def)
  done


declare move_gen_next.simps [simp del]

definition move_gen_next_move :: "move_gen \<Rightarrow> (move \<times> move_gen) option" where
  "move_gen_next_move g = move_gen_next g True"

definition move_gen_make_next_move :: "move_gen \<Rightarrow> (move \<times> move_gen) option" where
  "move_gen_make_next_move g = move_gen_next g False"

definition move_gen_is_checkmate :: "move_gen \<Rightarrow> bool option" where
  "move_gen_is_checkmate g =
     (if gen_done g = 0 then None else Some (gen_done g = MOVE_DONE_CHECKMATE))"

definition move_gen_is_stalemate :: "move_gen \<Rightarrow> bool option" where
  "move_gen_is_stalemate g =
     (if gen_done g = 0 then None else Some (gen_done g = MOVE_DONE_STALEMATE))"

subsection \<open>The paths through one call of the generator\<close>

text \<open>Every returning call of \<open>move_gen_next\<close> takes one of ten paths: three in the END
  mode, a castle emitted or skipped, a regular move emitted (unmade or kept), a regular
  move rejected because it leaves the mover in check, and the scan for the next piece
  ending or finding one.  The rule below is induction over these paths.\<close>

lemma move_gen_next_cases [consumes 1, case_names end_hit end_mate end_stale castle_emit
    castle_skip emit_undo emit_keep reject advance_done advance_found]:
  assumes run: "move_gen_next g u = Some r"
    and end_hit: "\<And>g. \<lbrakk>board_invariants (board g); cur_mode g = MOVE_GEN_MODE_END; hit_move g \<noteq> 0\<rbrakk>
        \<Longrightarrow> P g (MOVE_END, g\<lparr>gen_done := MOVE_DONE_NORMAL\<rparr>)"
    and end_mate: "\<And>g c. \<lbrakk>board_invariants (board g); cur_mode g = MOVE_GEN_MODE_END; hit_move g = 0;
          board_player_in_check (board g) (board_player_to_move (board g)) = Some c; c \<noteq> 0\<rbrakk>
        \<Longrightarrow> P g (MOVE_END, g\<lparr>gen_done := MOVE_DONE_CHECKMATE\<rparr>)"
    and end_stale: "\<And>g. \<lbrakk>board_invariants (board g); cur_mode g = MOVE_GEN_MODE_END; hit_move g = 0;
          board_player_in_check (board g) (board_player_to_move (board g)) = Some 0\<rbrakk>
        \<Longrightarrow> P g (MOVE_END, g\<lparr>gen_done := MOVE_DONE_STALEMATE\<rparr>)"
    and castle_emit: "\<And>g side nxt castle g1.
         \<lbrakk>board_invariants (board g);
          (cur_mode g = MOVE_GEN_MODE_CASTLE_KING \<and> side = KING \<and> nxt = MOVE_GEN_MODE_CASTLE_QUEEN)
          \<or> (cur_mode g = MOVE_GEN_MODE_CASTLE_QUEEN \<and> side = QUEEN \<and> nxt = MOVE_GEN_MODE_END);
          move_gen_castle (g\<lparr>cur_mode := nxt\<rparr>) (board_player_to_move (board g)) side u
            = Some (castle, g1);
          castle \<noteq> MOVE_END\<rbrakk>
        \<Longrightarrow> P g (castle, g1\<lparr>hit_move := 1\<rparr>)"
    and castle_skip: "\<And>g side nxt g1 r.
         \<lbrakk>board_invariants (board g);
          (cur_mode g = MOVE_GEN_MODE_CASTLE_KING \<and> side = KING \<and> nxt = MOVE_GEN_MODE_CASTLE_QUEEN)
          \<or> (cur_mode g = MOVE_GEN_MODE_CASTLE_QUEEN \<and> side = QUEEN \<and> nxt = MOVE_GEN_MODE_END);
          move_gen_castle (g\<lparr>cur_mode := nxt\<rparr>) (board_player_to_move (board g)) side u
            = Some (MOVE_END, g1);
          move_gen_next g1 u = Some r; P g1 r\<rbrakk>
        \<Longrightarrow> P g r"
    and emit_undo: "\<And>g mv g1 b1 b2.
         \<lbrakk>board_invariants (board g); cur_mode g = MOVE_GEN_MODE_NORMAL; cur_moves g \<noteq> 0;
          move_gen_next_from_cur_moves g = Some (mv, g1);
          board_make_move (board g1) mv = Some b1;
          board_player_in_check b1 (board_player_to_move (board g)) = Some 0;
          u; board_unmake_move b1 mv = Some b2\<rbrakk>
        \<Longrightarrow> P g (mv, g1\<lparr>board := b2, hit_move := 1\<rparr>)"
    and emit_keep: "\<And>g mv g1 b1.
         \<lbrakk>board_invariants (board g); cur_mode g = MOVE_GEN_MODE_NORMAL; cur_moves g \<noteq> 0;
          move_gen_next_from_cur_moves g = Some (mv, g1);
          board_make_move (board g1) mv = Some b1;
          board_player_in_check b1 (board_player_to_move (board g)) = Some 0;
          \<not> u\<rbrakk>
        \<Longrightarrow> P g (mv, g1\<lparr>board := b1, hit_move := 1\<rparr>)"
    and reject: "\<And>g mv g1 b1 c b2 r.
         \<lbrakk>board_invariants (board g); cur_mode g = MOVE_GEN_MODE_NORMAL; cur_moves g \<noteq> 0;
          move_gen_next_from_cur_moves g = Some (mv, g1);
          board_make_move (board g1) mv = Some b1;
          board_player_in_check b1 (board_player_to_move (board g)) = Some c; c \<noteq> 0;
          board_unmake_move b1 mv = Some b2;
          move_gen_next (g1\<lparr>board := b2\<rparr>) u = Some r; P (g1\<lparr>board := b2\<rparr>) r\<rbrakk>
        \<Longrightarrow> P g r"
    and advance_done: "\<And>g g1 r.
         \<lbrakk>board_invariants (board g); cur_mode g = MOVE_GEN_MODE_NORMAL; cur_moves g = 0;
          advance_loop g (players (board g) ! board_player_to_move (board g)) = (True, g1);
          move_gen_next (g1\<lparr>cur_mode := MOVE_GEN_MODE_CASTLE_KING\<rparr>) u = Some r;
          P (g1\<lparr>cur_mode := MOVE_GEN_MODE_CASTLE_KING\<rparr>) r\<rbrakk>
        \<Longrightarrow> P g r"
    and advance_found: "\<And>g g1 r.
         \<lbrakk>board_invariants (board g); cur_mode g = MOVE_GEN_MODE_NORMAL; cur_moves g = 0;
          advance_loop g (players (board g) ! board_player_to_move (board g)) = (False, g1);
          move_gen_next
            (g1\<lparr>cur_moves :=
                  move_gen_reg_moves_mask (occupancy_for_sliders g1) (occupancy_for_pawns g1)
                    (cur_piece_type g1) (board_player_to_move (board g)) (cur_square g1)
                  AND final_moves_mask g1\<rparr>) u = Some r;
          P (g1\<lparr>cur_moves :=
                  move_gen_reg_moves_mask (occupancy_for_sliders g1) (occupancy_for_pawns g1)
                    (cur_piece_type g1) (board_player_to_move (board g)) (cur_square g1)
                  AND final_moves_mask g1\<rparr>) r\<rbrakk>
        \<Longrightarrow> P g r"
  shows "P g r"
  using run
proof (induction g u' \<equiv> u arbitrary: r rule: move_gen_next.induct)
  case (1 g)
  note prems = "1.prems"
  from prems have inv: "board_invariants (board g)"
    by (subst (asm) move_gen_next.simps) (simp split: if_splits)
  have modes: "cur_mode g = MOVE_GEN_MODE_END \<or> cur_mode g = MOVE_GEN_MODE_CASTLE_KING
     \<or> cur_mode g = MOVE_GEN_MODE_CASTLE_QUEEN \<or> cur_mode g = MOVE_GEN_MODE_NORMAL"
    using prems inv by (subst (asm) move_gen_next.simps) (simp add: Let_def split: if_splits)
  then consider (e) "cur_mode g = MOVE_GEN_MODE_END"
    | (ck) "cur_mode g = MOVE_GEN_MODE_CASTLE_KING"
    | (cq) "cur_mode g = MOVE_GEN_MODE_CASTLE_QUEEN"
    | (n) "cur_mode g = MOVE_GEN_MODE_NORMAL" by blast
  then show ?case
  proof cases
    case e
    with prems inv show ?thesis
      apply (subst (asm) move_gen_next.simps)
      apply (auto simp: Let_def split: if_splits option.splits intro: end_hit end_mate end_stale)
      done
  next
    case ck
    have ne: "MOVE_GEN_MODE_CASTLE_KING \<noteq> MOVE_GEN_MODE_END" by (simp add: mode_defs)
    define pl where "pl = board_player_to_move (board g)"
    have eq: "move_gen_next g u =
        (case move_gen_castle (g\<lparr>cur_mode := MOVE_GEN_MODE_CASTLE_QUEEN\<rparr>) pl KING u of
           None \<Rightarrow> None
         | Some (castle, g1) \<Rightarrow>
             if castle \<noteq> MOVE_END then Some (castle, g1\<lparr>hit_move := 1\<rparr>)
             else move_gen_next g1 u)"
      using inv ck ne by (subst move_gen_next.simps) (simp add: Let_def pl_def)
    with prems obtain castle g1 where
      c: "move_gen_castle (g\<lparr>cur_mode := MOVE_GEN_MODE_CASTLE_QUEEN\<rparr>) pl KING u = Some (castle, g1)"
      and res: "(if castle \<noteq> MOVE_END then Some (castle, g1\<lparr>hit_move := 1\<rparr>)
                 else move_gen_next g1 u) = Some r"
      by (auto split: option.splits)
    show ?thesis
    proof (cases "castle = MOVE_END")
      case True
      with res have run1: "move_gen_next g1 u = Some r" by simp
      have "P g1 r"
        by (rule "1.hyps"(1)[OF _ refl refl _ ck c[unfolded pl_def] refl _ run1])
           (use inv ne ck True in simp_all)
      moreover have "P g1 r \<Longrightarrow> P g r"
        by (rule castle_skip[OF inv _ c[unfolded pl_def True] run1]) (use ck in simp_all)
      ultimately show ?thesis by blast
    next
      case False
      with res have r: "r = (castle, g1\<lparr>hit_move := 1\<rparr>)" by simp
      have "P g (castle, g1\<lparr>hit_move := 1\<rparr>)"
        by (rule castle_emit[OF inv _ c[unfolded pl_def] False]) (use ck in simp_all)
      with r show ?thesis by simp
    qed
  next
    case cq
    have ne: "MOVE_GEN_MODE_CASTLE_QUEEN \<noteq> MOVE_GEN_MODE_END"
      "MOVE_GEN_MODE_CASTLE_QUEEN \<noteq> MOVE_GEN_MODE_CASTLE_KING" by (simp_all add: mode_defs)
    define pl where "pl = board_player_to_move (board g)"
    have eq: "move_gen_next g u =
        (case move_gen_castle (g\<lparr>cur_mode := MOVE_GEN_MODE_END\<rparr>) pl QUEEN u of
           None \<Rightarrow> None
         | Some (castle, g1) \<Rightarrow>
             if castle \<noteq> MOVE_END then Some (castle, g1\<lparr>hit_move := 1\<rparr>)
             else move_gen_next g1 u)"
      using inv cq ne by (subst move_gen_next.simps) (simp add: Let_def pl_def)
    with prems obtain castle g1 where
      c: "move_gen_castle (g\<lparr>cur_mode := MOVE_GEN_MODE_END\<rparr>) pl QUEEN u = Some (castle, g1)"
      and res: "(if castle \<noteq> MOVE_END then Some (castle, g1\<lparr>hit_move := 1\<rparr>)
                 else move_gen_next g1 u) = Some r"
      by (auto split: option.splits)
    show ?thesis
    proof (cases "castle = MOVE_END")
      case True
      with res have run1: "move_gen_next g1 u = Some r" by simp
      have "P g1 r"
        by (rule "1.hyps"(2)[OF _ refl refl _ _ cq c[unfolded pl_def] refl _ run1])
           (use inv ne cq True in simp_all)
      moreover have "P g1 r \<Longrightarrow> P g r"
        by (rule castle_skip[OF inv _ c[unfolded pl_def True] run1]) (use cq in simp_all)
      ultimately show ?thesis by blast
    next
      case False
      with res have r: "r = (castle, g1\<lparr>hit_move := 1\<rparr>)" by simp
      have "P g (castle, g1\<lparr>hit_move := 1\<rparr>)"
        by (rule castle_emit[OF inv _ c[unfolded pl_def] False]) (use cq in simp_all)
      with r show ?thesis by simp
    qed
  next
    case n
    have ne: "MOVE_GEN_MODE_NORMAL \<noteq> MOVE_GEN_MODE_END"
      "MOVE_GEN_MODE_NORMAL \<noteq> MOVE_GEN_MODE_CASTLE_KING"
      "MOVE_GEN_MODE_NORMAL \<noteq> MOVE_GEN_MODE_CASTLE_QUEEN" by (simp_all add: mode_defs)
    define pl where "pl = board_player_to_move (board g)"
    define pm where "pm = players (board g) ! pl"
    show ?thesis
    proof (cases "cur_moves g = 0")
      case False
      have eq: "move_gen_next g u =
         (case move_gen_next_from_cur_moves g of
            None \<Rightarrow> None
          | Some (next_move, g1) \<Rightarrow>
              (case board_make_move (board g1) next_move of
                 None \<Rightarrow> None
               | Some b1 \<Rightarrow>
                   (case board_player_in_check b1 pl of
                      None \<Rightarrow> None
                    | Some c \<Rightarrow>
                        if c \<noteq> 0 then
                          (case board_unmake_move b1 next_move of
                             None \<Rightarrow> None
                           | Some b2 \<Rightarrow> move_gen_next (g1\<lparr>board := b2\<rparr>) u)
                        else if u then
                          (case board_unmake_move b1 next_move of
                             None \<Rightarrow> None
                           | Some b2 \<Rightarrow> Some (next_move, g1\<lparr>board := b2, hit_move := 1\<rparr>))
                        else Some (next_move, g1\<lparr>board := b1, hit_move := 1\<rparr>))))"
        using inv n ne False unfolding pl_def by (subst move_gen_next.simps) (simp add: Let_def)
      with prems obtain mv g1 b1 c where
        nf: "move_gen_next_from_cur_moves g = Some (mv, g1)"
        and mk: "board_make_move (board g1) mv = Some b1"
        and ck: "board_player_in_check b1 pl = Some c"
        and res: "(if c \<noteq> 0 then
                          (case board_unmake_move b1 mv of
                             None \<Rightarrow> None
                           | Some b2 \<Rightarrow> move_gen_next (g1\<lparr>board := b2\<rparr>) u)
                        else if u then
                          (case board_unmake_move b1 mv of
                             None \<Rightarrow> None
                           | Some b2 \<Rightarrow> Some (mv, g1\<lparr>board := b2, hit_move := 1\<rparr>))
                        else Some (mv, g1\<lparr>board := b1, hit_move := 1\<rparr>)) = Some r"
        by (auto split: option.splits)
      show ?thesis
      proof (cases "c = 0")
        case c0: True
        show ?thesis
        proof (cases u)
          case True
          with res c0 obtain b2 where um: "board_unmake_move b1 mv = Some b2"
            and r: "r = (mv, g1\<lparr>board := b2, hit_move := 1\<rparr>)"
            by (auto split: option.splits)
          have "P g (mv, g1\<lparr>board := b2, hit_move := 1\<rparr>)"
            by (rule emit_undo[OF inv n False nf mk ck[unfolded pl_def c0] True um])
          with r show ?thesis by simp
        next
          case nu: False
          with res c0 have r: "r = (mv, g1\<lparr>board := b1, hit_move := 1\<rparr>)" by simp
          have "P g (mv, g1\<lparr>board := b1, hit_move := 1\<rparr>)"
            by (rule emit_keep[OF inv n False nf mk ck[unfolded pl_def c0] nu])
          with r show ?thesis by simp
        qed
      next
        case cn: False
        with res obtain b2 where um: "board_unmake_move b1 mv = Some b2"
          and run1: "move_gen_next (g1\<lparr>board := b2\<rparr>) u = Some r"
          by (auto split: option.splits)
        have "P (g1\<lparr>board := b2\<rparr>) r"
          by (rule "1.hyps"(3)[OF _ refl refl _ _ _ n False nf refl mk ck[unfolded pl_def] cn um run1])
             (use inv ne n in simp_all)
        then show ?thesis
          by (rule reject[OF inv n False nf mk ck[unfolded pl_def] cn um run1])
      qed
    next
      case True
      obtain fin g1 where al: "advance_loop g pm = (fin, g1)" by (cases "advance_loop g pm")
      show ?thesis
      proof (cases fin)
        case fT: True
        have eq: "move_gen_next g u =
             move_gen_next (g1\<lparr>cur_mode := MOVE_GEN_MODE_CASTLE_KING\<rparr>) u"
          using inv n ne True al fT
          by (subst move_gen_next.simps) (simp add: Let_def pl_def pm_def)
        with prems have run1: "move_gen_next (g1\<lparr>cur_mode := MOVE_GEN_MODE_CASTLE_KING\<rparr>) u = Some r"
          by simp
        have al': "advance_loop g (players (board g) ! board_player_to_move (board g)) = (True, g1)"
          using al fT by (simp add: pm_def pl_def)
        have "P (g1\<lparr>cur_mode := MOVE_GEN_MODE_CASTLE_KING\<rparr>) r"
          by (rule "1.hyps"(4)[OF _ refl refl _ _ _ n _ al'[symmetric] refl run1])
             (use inv ne n True in simp_all)
        then show ?thesis
          by (rule advance_done[OF inv n True al' run1])
      next
        case fF: False
        let ?g2 = "g1\<lparr>cur_moves :=
                  move_gen_reg_moves_mask (occupancy_for_sliders g1) (occupancy_for_pawns g1)
                    (cur_piece_type g1) (board_player_to_move (board g)) (cur_square g1)
                  AND final_moves_mask g1\<rparr>"
        have eq: "move_gen_next g u = move_gen_next ?g2 u"
          using inv n ne True al fF
          by (subst move_gen_next.simps) (simp add: Let_def pl_def pm_def)
        with prems have run1: "move_gen_next ?g2 u = Some r"
          by simp
        have al': "advance_loop g (players (board g) ! board_player_to_move (board g)) = (False, g1)"
          using al fF by (simp add: pm_def pl_def)
        have "P ?g2 r"
          by (rule "1.hyps"(5)[OF _ refl refl _ _ _ n _ al'[symmetric] refl run1])
             (use inv ne n True in simp_all)
        then show ?thesis
          by (rule advance_found[OF inv n True al' run1])
      qed
    qed
  qed
qed


definition gen_order :: "(move_gen \<times> move_gen) set" where
  "gen_order = measures [mode_rank, square_rank, \<lambda>g. bitboard_popcount (cur_moves g),
                         promotion_rank]"

lemma wf_gen_order: "wf gen_order"
  by (simp add: gen_order_def)

lemma gen_order_iff:
  "(a, b) \<in> gen_order \<longleftrightarrow>
     mode_rank a < mode_rank b \<or> (mode_rank a = mode_rank b \<and>
       (square_rank a < square_rank b \<or> (square_rank a = square_rank b \<and>
         (bitboard_popcount (cur_moves a) < bitboard_popcount (cur_moves b)
          \<or> (bitboard_popcount (cur_moves a) = bitboard_popcount (cur_moves b)
              \<and> promotion_rank a < promotion_rank b)))))"
  by (auto simp: gen_order_def)

lemma trans_gen_order: "(a, b) \<in> gen_order \<Longrightarrow> (b, c) \<in> gen_order \<Longrightarrow> (a, c) \<in> gen_order"
  unfolding gen_order_iff by linarith

lemma move_gen_next_decreases:
  assumes "move_gen_next g u = Some r" and "fst r \<noteq> MOVE_END"
  shows "(snd r, g) \<in> gen_order"
  using assms
proof (induction rule: move_gen_next_cases)
  case (castle_emit g side nxt castle g1)
  from move_gen_castle_fields(1)[OF castle_emit(3)] castle_emit(2)
  show ?case
    by (cases g1; cases g) (auto simp: gen_order_iff mode_rank_def mode_defs)
next
  case (castle_skip g side nxt g1 r)
  from move_gen_castle_fields(1)[OF castle_skip(3)] castle_skip(2)
  have "(g1, g) \<in> gen_order"
    by (cases g1; cases g) (auto simp: gen_order_iff mode_rank_def mode_defs)
  with castle_skip show ?case by (blast intro: trans_gen_order)
next
  case (emit_undo g mv g1 b1 b2)
  from move_gen_next_from_cur_moves_measure[OF emit_undo(4)] show ?case
    by (auto simp: gen_order_iff mode_rank_def square_rank_def promotion_rank_def)
next
  case (emit_keep g mv g1 b1)
  from move_gen_next_from_cur_moves_measure[OF emit_keep(4)] show ?case
    by (auto simp: gen_order_iff mode_rank_def square_rank_def promotion_rank_def)
next
  case (reject g mv g1 b1 c b2 r)
  from move_gen_next_from_cur_moves_measure[OF reject(4)]
  have "(g1\<lparr>board := b2\<rparr>, g) \<in> gen_order"
    by (auto simp: gen_order_iff mode_rank_def square_rank_def promotion_rank_def)
  with reject show ?case by (blast intro: trans_gen_order)
next
  case (advance_done g g1 r)
  from advance_loop_props[OF advance_done(4)] advance_done(2)
  have "(g1\<lparr>cur_mode := MOVE_GEN_MODE_CASTLE_KING\<rparr>, g) \<in> gen_order"
    by (auto simp: gen_order_iff mode_rank_def mode_defs)
  with advance_done show ?case by (blast intro: trans_gen_order)
next
  case (advance_found g g1 r)
  from advance_loop_props[OF advance_found(4)] advance_found(2)
  have "(g1\<lparr>cur_moves :=
                  move_gen_reg_moves_mask (occupancy_for_sliders g1) (occupancy_for_pawns g1)
                    (cur_piece_type g1) (board_player_to_move (board g)) (cur_square g1)
                  AND final_moves_mask g1\<rparr>, g) \<in> gen_order"
    by (auto simp: gen_order_iff mode_rank_def mode_defs square_rank_def)
  with advance_found show ?case by (blast intro: trans_gen_order)
qed simp_all

subsection \<open>What a call leaves in the generator\<close>

text \<open>\<open>hit_move\<close> is set by every call that returns a move and kept by every call that
  returns \<open>MOVE_END\<close>; the latter leaves the generator classified: \<open>done\<close> is normal when
  \<open>hit_move\<close> is set, and otherwise checkmate or stalemate as the player to move is in check
  or not.\<close>

lemma move_gen_next_from_cur_moves_frame:
  assumes "move_gen_next_from_cur_moves g = Some (m, g1)"
  shows "g1\<lparr>cur_moves := cur_moves g, cur_promotion := cur_promotion g\<rparr> = g"
    and "m \<noteq> MOVE_END"
  using assms
  by (auto simp: move_gen_next_from_cur_moves_def Let_def move_gen_next_promote_def
        construct_move_not_MOVE_END split: if_splits option.splits)

lemma advance_loop_frame:
  "advance_loop g pm = (fin, g1) \<Longrightarrow>
     g1\<lparr>cur_square := cur_square g, cur_piece_type := cur_piece_type g\<rparr> = g"
proof (induction g pm rule: advance_loop.induct)
  case (1 g pm)
  have a: "(advance_square g)\<lparr>cur_square := cur_square g, cur_piece_type := cur_piece_type g\<rparr> = g"
    by (simp add: advance_square_def Let_def)
  show ?case
  proof (cases "cur_piece_type (advance_square g) > QUEEN
          \<or> bitboard_check_square ((pieces (board (advance_square g)) ! cur_piece_type (advance_square g)) AND pm)
                   (cur_square (advance_square g))")
    case True
    with "1.prems" have "g1 = advance_square g"
      by (subst (asm) advance_loop.simps) (auto simp: Let_def split: if_splits)
    with a show ?thesis by simp
  next
    case False
    with "1.prems" have run: "advance_loop (advance_square g) pm = (fin, g1)"
      by (subst (asm) advance_loop.simps) (auto simp: Let_def split: if_splits)
    from False have "g1\<lparr>cur_square := cur_square (advance_square g),
         cur_piece_type := cur_piece_type (advance_square g)\<rparr> = advance_square g"
      by (intro "1.IH"[OF refl _ _ run]) auto
    then have "g1\<lparr>cur_square := cur_square (advance_square g),
         cur_piece_type := cur_piece_type (advance_square g)\<rparr>
          \<lparr>cur_square := cur_square g, cur_piece_type := cur_piece_type g\<rparr> = g"
      using a by simp
    then show ?thesis by simp
  qed
qed

lemma move_gen_castle_not_end:
  "move_gen_castle g player side u = Some (m, g1) \<Longrightarrow> hit_move g1 = hit_move g"
  using move_gen_castle_fields(1)[of g player side u m g1]
  by (cases g; cases g1) auto


lemma board_invariants_in_check:
  assumes "board_invariants b"
  shows "\<exists>c. board_player_in_check b (board_player_to_move b) = Some c"
proof -
  have "bitboard_popcount ((pieces b ! KING) AND (players b ! board_player_to_move b)) = 1"
    using assms by (auto simp: board_invariants_def board_player_to_move_def and.commute)
  then show ?thesis by (simp add: board_player_in_check_def Let_def)
qed

definition gen_classified :: "move_gen \<Rightarrow> bool" where
  "gen_classified g \<longleftrightarrow>
     (\<exists>c. board_player_in_check (board g) (board_player_to_move (board g)) = Some c
        \<and> gen_done g = (if hit_move g \<noteq> 0 then MOVE_DONE_NORMAL
                        else if c \<noteq> 0 then MOVE_DONE_CHECKMATE else MOVE_DONE_STALEMATE))"

lemma move_gen_next_hit:
  assumes "move_gen_next g u = Some r"
  shows "(fst r \<noteq> MOVE_END \<longrightarrow> hit_move (snd r) = 1)
       \<and> (fst r = MOVE_END \<longrightarrow> hit_move (snd r) = hit_move g \<and> gen_classified (snd r))"
  using assms
proof (induction rule: move_gen_next_cases)
  case (end_hit g)
  then show ?case
    using board_invariants_in_check[of "board g"] by (auto simp: gen_classified_def)
next
  case (end_mate g c)
  then show ?case by (auto simp: gen_classified_def)
next
  case (end_stale g)
  then show ?case by (auto simp: gen_classified_def)
next
  case (castle_emit g side nxt castle g1)
  then show ?case by simp
next
  case (castle_skip g side nxt g1 r)
  from move_gen_castle_not_end[OF castle_skip(3)] castle_skip show ?case by simp
next
  case (emit_undo g mv g1 b1 b2)
  from move_gen_next_from_cur_moves_frame(2)[OF emit_undo(4)] show ?case by simp
next
  case (emit_keep g mv g1 b1)
  from move_gen_next_from_cur_moves_frame(2)[OF emit_keep(4)] show ?case by simp
next
  case (reject g mv g1 b1 c b2 r)
  from move_gen_next_from_cur_moves_frame(1)[OF reject(4)]
  have "hit_move g1 = hit_move g" by (cases g; cases g1) auto
  with reject show ?case by simp
next
  case (advance_done g g1 r)
  from advance_loop_frame[OF advance_done(4)]
  have "hit_move g1 = hit_move g" by (cases g; cases g1) auto
  with advance_done show ?case by simp
next
  case (advance_found g g1 r)
  from advance_loop_frame[OF advance_found(4)]
  have "hit_move g1 = hit_move g" by (cases g; cases g1) auto
  with advance_found show ?case by simp
qed

text \<open>The loop \<open>while ((move = move_gen_next_move(&gen)) != MOVE_END)\<close> of
  \<open>board_is_checkmate\<close>, \<open>board_is_stalemate\<close> and \<open>move_is_legal\<close>; the first collects
  the moves it sees.\<close>

function move_gen_collect :: "move_gen \<Rightarrow> (move list \<times> move_gen) option" where
  "move_gen_collect g =
     (case move_gen_next_move g of
        None \<Rightarrow> None
      | Some (m, g1) \<Rightarrow>
          if m = MOVE_END then Some ([], g1)
          else (case move_gen_collect g1 of
                  None \<Rightarrow> None
                | Some (ms, g2) \<Rightarrow> Some (m # ms, g2)))"
  by pat_completeness auto
termination
proof (relation gen_order)
  show "wf gen_order" by (rule wf_gen_order)
next
  fix g x2 m g1
  assume "move_gen_next_move g = Some x2" "(m, g1) = x2" "m \<noteq> MOVE_END"
  then show "(g1, g) \<in> gen_order"
    using move_gen_next_decreases[of g True x2] by (auto simp: move_gen_next_move_def)
qed

declare move_gen_collect.simps [simp del]

lemma move_gen_collect_hit:
  "move_gen_collect g = Some (ms, gf) \<Longrightarrow>
     gen_classified gf \<and> (hit_move gf \<noteq> 0 \<longleftrightarrow> hit_move g \<noteq> 0 \<or> ms \<noteq> [])"
proof (induction g arbitrary: ms gf rule: move_gen_collect.induct)
  case (1 g)
  from "1.prems" obtain m g1 where nx: "move_gen_next g True = Some (m, g1)"
    by (subst (asm) move_gen_collect.simps)
       (auto simp: move_gen_next_move_def split: option.splits)
  note h = move_gen_next_hit[OF nx]
  show ?case
  proof (cases "m = MOVE_END")
    case True
    with "1.prems" nx have "ms = []" "gf = g1"
      by (subst (asm) move_gen_collect.simps; simp add: move_gen_next_move_def)+
    with h True show ?thesis by simp
  next
    case False
    with "1.prems" nx obtain ms1 where c1: "move_gen_collect g1 = Some (ms1, gf)"
      and ms: "ms = m # ms1"
      by (subst (asm) move_gen_collect.simps)
         (auto simp: move_gen_next_move_def split: option.splits)
    have "gen_classified gf \<and> (hit_move gf \<noteq> 0 \<longleftrightarrow> hit_move g1 \<noteq> 0 \<or> ms1 \<noteq> [])"
      by (rule "1.IH"[OF _ refl False c1]) (simp add: move_gen_next_move_def nx)
    with h False ms show ?thesis by simp
  qed
qed

definition board_is_checkmate :: "board \<Rightarrow> bool option" where
  "board_is_checkmate b =
     (case move_gen_collect (move_gen_init b) of
        None \<Rightarrow> None
      | Some (ms, g) \<Rightarrow> move_gen_is_checkmate g)"

definition board_is_stalemate :: "board \<Rightarrow> bool option" where
  "board_is_stalemate b =
     (case move_gen_collect (move_gen_init b) of
        None \<Rightarrow> None
      | Some (ms, g) \<Rightarrow> move_gen_is_stalemate g)"

definition moves_equal :: "move \<Rightarrow> move \<Rightarrow> bool" where
  "moves_equal move0 move1 =
     (if move0 AND MOVE_FLAGS_PREV_FLAGS \<noteq> move1 AND MOVE_FLAGS_PREV_FLAGS then False
      else if move_source_square move0 \<noteq> move_source_square move1
              \<or> move_destination_square move0 \<noteq> move_destination_square move1 then False
      else if move_is_promotion move0 \<noteq> move_is_promotion move1
              \<or> (move_is_promotion move0
                  \<and> move_promotion_piece move0 \<noteq> move_promotion_piece move1) then False
      else if move_is_capture move0 \<noteq> move_is_capture move1
              \<or> (move_is_capture move0
                  \<and> (move_capture_piece move0 \<noteq> move_capture_piece move1
                      \<or> move_capture_square move0 \<noteq> move_capture_square move1)) then False
      else if move_is_castle move0 \<noteq> move_is_castle move1 then False
      else True)"

function move_is_legal_loop :: "move \<Rightarrow> move_gen \<Rightarrow> bool option" where
  "move_is_legal_loop move_to_check g =
     (case move_gen_next_move g of
        None \<Rightarrow> None
      | Some (cur, g1) \<Rightarrow>
          if cur = MOVE_END then Some False
          else if moves_equal move_to_check cur then Some True
          else move_is_legal_loop move_to_check g1)"
  by pat_completeness auto
termination
proof (relation "inv_image gen_order snd")
  show "wf (inv_image gen_order snd)" by (simp add: wf_gen_order)
next
  fix move_to_check g x2 cur g1
  assume "move_gen_next_move g = Some x2" "(cur, g1) = x2" "cur \<noteq> MOVE_END"
  then show "((move_to_check, g1), (move_to_check, g)) \<in> inv_image gen_order snd"
    using move_gen_next_decreases[of g True x2] by (auto simp: move_gen_next_move_def)
qed

declare move_is_legal_loop.simps [simp del]

definition move_is_legal :: "move \<Rightarrow> board \<Rightarrow> bool option" where
  "move_is_legal move_to_check b =
     (if move_to_check = MOVE_END then Some False
      else move_is_legal_loop move_to_check (move_gen_init b))"

section \<open>Strings: squares, moves and FEN (bitboard.c, move_gen.c)\<close>

text \<open>A C string is the list of its characters before the terminating NUL.  Reading at the
  end of the list reads the NUL; stepping over it leaves the string, which the model
  answers with \<open>None\<close>, as it does a failed assertion.\<close>

definition char_code :: "char \<Rightarrow> nat" where
  "char_code c = of_char c"

definition cur_char :: "string \<Rightarrow> char" where
  "cur_char s = (case s of [] \<Rightarrow> CHR 0x00 | c # r \<Rightarrow> c)"

definition isspace :: "char \<Rightarrow> bool" where
  "isspace c \<longleftrightarrow> c \<in> set [CHR '' '', CHR 0x09, CHR 0x0A, CHR 0x0B, CHR 0x0C, CHR 0x0D]"

definition board_pos_to_str :: "board_pos \<Rightarrow> string option" where
  "board_pos_to_str pos =
     (if \<not> pos < 64 then None
      else Some [char_of (nat (board_pos_to_x pos) + char_code (CHR ''a'')),
                 char_of (nat (board_pos_to_y pos) + char_code (CHR ''1''))])"

definition board_pos_from_str :: "string \<Rightarrow> board_pos option" where
  "board_pos_from_str str =
     (let c0 = cur_char str; c1 = cur_char (drop 1 str); c2 = cur_char (drop 2 str)
      in if \<not> ((char_code (CHR ''a'') \<le> char_code c0 \<and> char_code c0 \<le> char_code (CHR ''h''))
                 \<or> (char_code (CHR ''A'') \<le> char_code c0 \<and> char_code c0 \<le> char_code (CHR ''H'')))
         then None
         else if \<not> (char_code (CHR ''1'') \<le> char_code c1 \<and> char_code c1 \<le> char_code (CHR ''8''))
         then None
         else if c2 \<noteq> CHR 0x00 then None
         else
           let x = (if char_code (CHR ''a'') \<le> char_code c0 \<and> char_code c0 \<le> char_code (CHR ''h'')
                    then int (char_code c0) - int (char_code (CHR ''a''))
                    else int (char_code c0) - int (char_code (CHR ''A'')));
               y = int (char_code c1) - int (char_code (CHR ''1''))
           in Some (board_pos_from_xy x y))"

definition board_piece_char_to_piece :: "char \<Rightarrow> nat option" where
  "board_piece_char_to_piece c =
     (if c = CHR ''P'' \<or> c = CHR ''p'' then Some PAWN
      else if c = CHR ''N'' \<or> c = CHR ''n'' then Some KNIGHT
      else if c = CHR ''B'' \<or> c = CHR ''b'' then Some BISHOP
      else if c = CHR ''R'' \<or> c = CHR ''r'' then Some ROOK
      else if c = CHR ''Q'' \<or> c = CHR ''q'' then Some QUEEN
      else if c = CHR ''k'' \<or> c = CHR ''K'' then Some KING
      else None)"

definition board_piece_char_to_player :: "char \<Rightarrow> nat option" where
  "board_piece_char_to_player c =
     (if c \<in> set [CHR ''P'', CHR ''N'', CHR ''B'', CHR ''R'', CHR ''Q'', CHR ''K''] then Some WHITE
      else if c \<in> set [CHR ''p'', CHR ''n'', CHR ''b'', CHR ''r'', CHR ''q'', CHR ''k'']
      then Some BLACK
      else None)"

definition piece_str :: "char list list" where
  "piece_str = [[CHR ''K'', CHR ''P'', CHR ''N'', CHR ''R'', CHR ''B'', CHR ''Q''],
                [CHR ''k'', CHR ''p'', CHR ''n'', CHR ''r'', CHR ''b'', CHR ''q'']]"

definition board_piece_char_from_piece_player :: "int \<Rightarrow> int \<Rightarrow> char option" where
  "board_piece_char_from_piece_player piece player =
     (if \<not> (player = int WHITE \<or> player = int BLACK) then None
      else if \<not> (piece \<ge> 0 \<and> piece < 6) then None
      else Some (piece_str ! nat player ! nat piece))"

text \<open>The piece-placement part of \<open>board_from_fen_str\<close>.  \<open>fen_rank\<close> is the inner
  \<open>while\<close> loop for one rank: it stops in front of a \<open>/\<close> or a space.  At the end of the
  string the source reads the NUL, which is no piece letter, and the assertion in
  \<open>board_piece_char_to_player\<close> fails; a file beyond h makes \<open>board_pos_from_xy\<close> answer
  255, and the assertion in \<open>bitboard_set_square\<close> fails.\<close>

fun fen_rank :: "board \<Rightarrow> int \<Rightarrow> int \<Rightarrow> string \<Rightarrow> (board \<times> string) option" where
  "fen_rank b file rank [] = None"
| "fen_rank b file rank (c # s) =
     (if c = CHR ''/'' \<or> isspace c then Some (b, c # s)
      else if char_code (CHR ''1'') \<le> char_code c \<and> char_code c \<le> char_code (CHR ''8'')
      then fen_rank b (file + (int (char_code c) - int (char_code (CHR ''0'')))) rank s
      else
        (case board_piece_char_to_player c of
           None \<Rightarrow> None
         | Some player \<Rightarrow>
             (case board_piece_char_to_piece c of
                None \<Rightarrow> None
              | Some piece \<Rightarrow>
                  if \<not> board_pos_from_xy file rank < 64 then None
                  else fen_rank
                         (set_piece_sq (set_player_sq b player (board_pos_from_xy file rank))
                            piece (board_pos_from_xy file rank))
                         (file + 1) rank s)))"

text \<open>The outer \<open>for\<close> loop: \<open>fen_ranks n\<close> reads the ranks \<open>n - 1\<close> down to 0, and steps
  over the character that ended each of them.\<close>

fun fen_ranks :: "nat \<Rightarrow> board \<Rightarrow> string \<Rightarrow> (board \<times> string) option" where
  "fen_ranks 0 b s = Some (b, s)"
| "fen_ranks (Suc n) b s =
     (case fen_rank b 0 (int n) s of
        None \<Rightarrow> None
      | Some (b1, s1) \<Rightarrow> (case s1 of [] \<Rightarrow> None | c # s2 \<Rightarrow> fen_ranks n b1 s2))"

text \<open>The castling letters: the loop reads while it sees one of \<open>K Q k q -\<close>.\<close>

fun fen_castling :: "32 word \<Rightarrow> string \<Rightarrow> 32 word \<times> string" where
  "fen_castling f [] = (f, [])"
| "fen_castling f (c # s) =
     (if c = CHR ''K'' then fen_castling (f OR BOARD_FLAGS_W_CASTLE_KING) s
      else if c = CHR ''Q'' then fen_castling (f OR BOARD_FLAGS_W_CASTLE_QUEEN) s
      else if c = CHR ''k'' then fen_castling (f OR BOARD_FLAGS_B_CASTLE_KING) s
      else if c = CHR ''q'' then fen_castling (f OR BOARD_FLAGS_B_CASTLE_QUEEN) s
      else if c = CHR ''-'' then fen_castling f s
      else (f, c # s))"

text \<open>\<open>atoi\<close> on a string without leading white space: an optional sign and the leading
  decimal digits.\<close>

fun atoi_digits :: "int \<Rightarrow> string \<Rightarrow> int" where
  "atoi_digits acc [] = acc"
| "atoi_digits acc (c # s) =
     (if char_code (CHR ''0'') \<le> char_code c \<and> char_code c \<le> char_code (CHR ''9'')
      then atoi_digits (acc * 10 + (int (char_code c) - int (char_code (CHR ''0'')))) s
      else acc)"

definition atoi :: "string \<Rightarrow> int" where
  "atoi s =
     (case s of
        [] \<Rightarrow> 0
      | c # r \<Rightarrow> if c = CHR ''-'' then - atoi_digits 0 r
                 else if c = CHR ''+'' then atoi_digits 0 r
                 else atoi_digits 0 s)"

text \<open>The en-passant field of \<open>board_from_fen_str\<close>: the flags and the rest of the
  string.\<close>

definition fen_en_passant :: "32 word \<Rightarrow> string \<Rightarrow> (32 word \<times> string) option" where
  "fen_en_passant f s =
     (if cur_char s = CHR ''-'' then Some (f AND NOT BOARD_FLAGS_EP_PRESENT, drop 1 s)
      else if length s < 2 then None
      else
        (case board_pos_from_str (take 2 s) of
           None \<Rightarrow> None
         | Some pos \<Rightarrow>
             Some ((f OR BOARD_FLAGS_EP_PRESENT) OR (of_nat pos AND BOARD_FLAGS_EP_SQUARE),
                   drop 2 s)))"

text \<open>The half-move clock is skipped with \<open>while (!isspace(*fen_string)) fen_string++\<close>,
  which runs over the NUL when no space follows; \<open>None\<close> then.\<close>

definition fen_skip_halfmove :: "string \<Rightarrow> string option" where
  "fen_skip_halfmove s =
     (let s1 = dropWhile isspace s; s2 = dropWhile (\<lambda>c. \<not> isspace c) s1
      in if s2 = [] then None else Some (dropWhile isspace s2))"

definition board_from_fen_str :: "string \<Rightarrow> board option" where
  "board_from_fen_str fen_string =
     (case fen_ranks 8 \<lparr>players = [0, 0], pieces = [0, 0, 0, 0, 0, 0], flags = 0\<rparr> fen_string of
        None \<Rightarrow> None
      | Some (b1, s1) \<Rightarrow>
          let s2 = dropWhile isspace s1 in
          if \<not> (cur_char s2 = CHR ''b'' \<or> cur_char s2 = CHR ''w'') then None
          else
            let f1 = (if cur_char s2 = CHR ''b'' then flags b1 OR BOARD_FLAGS_TURN
                      else flags b1 AND NOT BOARD_FLAGS_TURN);
                s3 = dropWhile isspace (drop 1 s2);
                (f2, s4) = fen_castling f1 s3;
                s5 = dropWhile isspace s4
            in case fen_en_passant f2 s5 of
                 None \<Rightarrow> None
               | Some (f3, s6) \<Rightarrow>
                   (case fen_skip_halfmove s6 of
                      None \<Rightarrow> None
                    | Some s7 \<Rightarrow>
                        let turn_count_str = take 5 (takeWhile (\<lambda>c. \<not> isspace c) s7);
                            turn_count = atoi turn_count_str;
                            b2 = b1\<lparr>flags := f3 OR (push_bit BOARD_FLAGS_TURN_NUM_SHIFT
                                                      (word_of_int turn_count)
                                                    AND BOARD_FLAGS_TURN_NUM)\<rparr>
                        in if board_invariants b2 then Some b2 else None))"

section \<open>Move strings (move_gen.c)\<close>

definition promote_codes :: "char list" where
  "promote_codes = [CHR ''k'', CHR ''p'', CHR ''n'', CHR ''r'', CHR ''b'', CHR ''q'']"

text \<open>\<open>move_to_str\<close>.  The promotion field has three bits; the values 6 and 7 index
  \<open>promote_codes\<close> out of bounds.\<close>

definition move_to_str :: "move \<Rightarrow> string option" where
  "move_to_str m =
     (case board_pos_to_str (move_source_square m) of
        None \<Rightarrow> None
      | Some s \<Rightarrow>
          (case board_pos_to_str (move_destination_square m) of
             None \<Rightarrow> None
           | Some d \<Rightarrow>
               if move_is_promotion m then
                 (if 0 \<le> move_promotion_piece m \<and> move_promotion_piece m < 6
                  then Some (s @ d @ [promote_codes ! nat (move_promotion_piece m)])
                  else None)
               else Some (s @ d)))"

definition file_wellformed :: "char \<Rightarrow> bool" where
  "file_wellformed file \<longleftrightarrow>
     (char_code (CHR ''a'') \<le> char_code file \<and> char_code file \<le> char_code (CHR ''h''))
     \<or> (char_code (CHR ''A'') \<le> char_code file \<and> char_code file \<le> char_code (CHR ''H''))"

definition rank_wellformed :: "char \<Rightarrow> bool" where
  "rank_wellformed rank \<longleftrightarrow>
     char_code (CHR ''1'') \<le> char_code rank \<and> char_code rank \<le> char_code (CHR ''8'')"

definition promote_wellformed :: "char \<Rightarrow> bool" where
  "promote_wellformed promote \<longleftrightarrow>
     promote = CHR ''n'' \<or> promote = CHR ''r'' \<or> promote = CHR ''b'' \<or> promote = CHR ''q''"

text \<open>\<open>move_str[i]\<close> for \<open>i\<close> up to the length of the string: the NUL at the end.\<close>

definition str_at :: "string \<Rightarrow> nat \<Rightarrow> char" where
  "str_at s i = cur_char (drop i s)"

definition move_str_is_wellformed :: "string \<Rightarrow> bool" where
  "move_str_is_wellformed move_str =
     (if length move_str \<noteq> 4 \<and> length move_str \<noteq> 5 then False
      else if \<not> file_wellformed (str_at move_str 0) \<or> \<not> rank_wellformed (str_at move_str 1)
      then False
      else if \<not> file_wellformed (str_at move_str 2) \<or> \<not> rank_wellformed (str_at move_str 3)
      then False
      else if length move_str = 5 \<and> \<not> promote_wellformed (str_at move_str 4) then False
      else True)"

text \<open>The loop of \<open>move_from_str\<close> over \<open>promote_codes\<close>: the last index whose code is
  the character, or -1.\<close>

definition promote_piece_of :: "char \<Rightarrow> int" where
  "promote_piece_of promote_char =
     foldl (\<lambda>promote_piece p. if promote_codes ! p = promote_char then int p else promote_piece)
       (- 1) [0, 1, 2, 3, 4, 5]"

text \<open>\<open>move_from_str\<close> reads \<open>move_str[0]\<close> to \<open>move_str[4]\<close> without looking at the
  length: a string of fewer than four characters is read beyond its NUL (\<open>None\<close>), and
  whatever follows the fifth character is never read.\<close>

definition move_from_str :: "string \<Rightarrow> board \<Rightarrow> move option" where
  "move_from_str move_str b =
     (if length move_str < 4 then None
      else
        let src_str = take 2 move_str;
            dst_str = take 2 (drop 2 move_str);
            is_promote = (str_at move_str 4 \<noteq> CHR 0x00);
            promote_piece = (if is_promote then promote_piece_of (str_at move_str 4) else - 1)
        in if is_promote \<and> promote_piece = - 1 then Some MOVE_END
           else
             (case board_pos_from_str src_str of
                None \<Rightarrow> None
              | Some src \<Rightarrow>
                  (case board_pos_from_str dst_str of
                     None \<Rightarrow> None
                   | Some dst \<Rightarrow> move_new src dst is_promote promote_piece b)))"

section \<open>Writing FEN (bitboard.c)\<close>

definition board_castling_to_str :: "board \<Rightarrow> string" where
  "board_castling_to_str b =
     (let s = (if flags b AND BOARD_FLAGS_W_CASTLE_KING \<noteq> 0 then [CHR ''K''] else [])
            @ (if flags b AND BOARD_FLAGS_W_CASTLE_QUEEN \<noteq> 0 then [CHR ''Q''] else [])
            @ (if flags b AND BOARD_FLAGS_B_CASTLE_KING \<noteq> 0 then [CHR ''k''] else [])
            @ (if flags b AND BOARD_FLAGS_B_CASTLE_QUEEN \<noteq> 0 then [CHR ''q''] else [])
      in if s = [] then [CHR ''-''] else s)"

definition board_ep_to_str :: "board \<Rightarrow> string option" where
  "board_ep_to_str b =
     (if flags b AND BOARD_FLAGS_EP_PRESENT \<noteq> 0
      then board_pos_to_str (unat (flags b AND BOARD_FLAGS_EP_SQUARE))
      else Some [CHR ''-''])"

text \<open>One rank of \<open>board_to_fen_str\<close>: the inner loop over the files \<open>xs\<close> still to
  visit, with the count of empty squares seen since the last piece.\<close>

fun fen_row :: "board \<Rightarrow> int \<Rightarrow> int list \<Rightarrow> nat \<Rightarrow> string option" where
  "fen_row b y [] empty_counter =
     Some (if empty_counter > 0 then [char_of (empty_counter + char_code (CHR ''0''))] else [])"
| "fen_row b y (x # xs) empty_counter =
     (let player = board_player_on_square b (board_pos_from_xy x y);
          piece = board_piece_on_square b (board_pos_from_xy x y)
      in if player = - 1 then fen_row b y xs (empty_counter + 1)
         else
           (case board_piece_char_from_piece_player piece player of
              None \<Rightarrow> None
            | Some c \<Rightarrow>
                (case fen_row b y xs 0 of
                   None \<Rightarrow> None
                 | Some rest \<Rightarrow>
                     Some ((if empty_counter > 0
                            then [char_of (empty_counter + char_code (CHR ''0''))] else [])
                           @ c # rest))))"

fun fen_rows :: "board \<Rightarrow> int list \<Rightarrow> string option" where
  "fen_rows b [] = Some []"
| "fen_rows b (y # ys) =
     (case fen_row b y [0, 1, 2, 3, 4, 5, 6, 7] 0 of
        None \<Rightarrow> None
      | Some row \<Rightarrow>
          (case fen_rows b ys of
             None \<Rightarrow> None
           | Some rest \<Rightarrow> Some (row @ (if y > 0 then [CHR ''/''] else []) @ rest)))"

text \<open>The decimal digits that \<open>%i\<close> prints for a number that is not negative.\<close>

function dec_str :: "nat \<Rightarrow> string" where
  "dec_str n =
     (if n < 10 then [char_of (n + char_code (CHR ''0''))]
      else dec_str (n div 10) @ [char_of (n mod 10 + char_code (CHR ''0''))])"
  by pat_completeness auto
termination
  by (relation "measure id") auto

declare dec_str.simps [simp del]

text \<open>\<open>snprintf(res_str, 4, "%i", n)\<close> writes at most three characters and the NUL.\<close>

definition snprintf4 :: "nat \<Rightarrow> string" where
  "snprintf4 n = take 3 (dec_str n)"

definition board_to_fen_str :: "board \<Rightarrow> string option" where
  "board_to_fen_str b =
     (if \<not> board_invariants b then None
      else
        (case fen_rows b [7, 6, 5, 4, 3, 2, 1, 0] of
           None \<Rightarrow> None
         | Some placement \<Rightarrow>
             (case board_ep_to_str b of
                None \<Rightarrow> None
              | Some ep \<Rightarrow>
                  Some (placement @ [CHR '' '']
                        @ [if board_player_to_move b = WHITE then CHR ''w'' else CHR ''b'']
                        @ [CHR '' ''] @ board_castling_to_str b
                        @ [CHR '' ''] @ ep
                        @ [CHR '' '', CHR ''0'', CHR '' '']
                        @ snprintf4 (board_get_full_turn_number b)))))"

section \<open>Evaluating the model on concrete positions\<close>

text \<open>The recursions on a counter are stated on \<open>Suc\<close>; these are the same equations on
  numerals, and the collection of all defining equations, for proofs by rewriting on a
  concrete board.\<close>

lemma ray_loop_numeral:
  "ray_loop (numeral n) occupancy x y dx dy moves =
     (if x \<le> 7 \<and> y \<le> 7 \<and> x \<ge> 0 \<and> y \<ge> 0 then
        (if bitboard_check_square occupancy (board_pos_from_xy x y)
         then bitboard_set_square moves (board_pos_from_xy x y)
         else ray_loop (pred_numeral n) occupancy (x + dx) (y + dy) dx dy
                (bitboard_set_square moves (board_pos_from_xy x y)))
      else moves)"
  by (simp add: numeral_eq_Suc)

lemma castle_path_clear_numeral:
  "castle_path_clear (numeral n) occupancy x xr dir y =
     (if x = xr then True
      else if bitboard_check_square occupancy (board_pos_from_xy x y) then False
      else castle_path_clear (pred_numeral n) occupancy (x + dir) xr dir y)"
  by (simp add: numeral_eq_Suc)

lemma popcount_nat_eval:
  "popcount_nat (numeral k) (numeral m) =
     numeral m mod 2 + popcount_nat (pred_numeral k) (numeral m div 2)"
  "popcount_nat n 0 = 0"
  "popcount_nat (numeral k) 1 = 1"
  "popcount_nat (numeral k) (Suc 0) = 1"
  "popcount_nat 1 j = j mod 2"
  "popcount_nat (Suc 0) j = j mod 2"
proof -
  have z: "popcount_nat n 0 = 0" for n by (induction n) auto
  show "popcount_nat n 0 = 0" by (rule z)
  show "popcount_nat (numeral k) (numeral m) =
     numeral m mod 2 + popcount_nat (pred_numeral k) (numeral m div 2)"
    by (simp add: numeral_eq_Suc)
  show "popcount_nat (numeral k) 1 = 1" "popcount_nat (numeral k) (Suc 0) = 1"
    by (simp_all add: popcount_nat_numeral z)
  show "popcount_nat 1 j = j mod 2" "popcount_nat (Suc 0) j = j mod 2" by simp_all
qed

lemma scan_rem_eval:
  "scan_rem (numeral k) (numeral m) =
     (if odd (numeral m :: nat) then numeral k else scan_rem (pred_numeral k) (numeral m div 2))"
  "scan_rem n 0 = 0"
  "scan_rem (numeral k) 1 = numeral k"
  "scan_rem (numeral k) (Suc 0) = numeral k"
  "scan_rem 1 j = (if odd j then 1 else 0)"
  "scan_rem (Suc 0) j = (if odd j then 1 else 0)"
proof -
  show z: "scan_rem n 0 = 0" for n by (induction n) auto
  show "scan_rem (numeral k) (numeral m) =
     (if odd (numeral m :: nat) then numeral k else scan_rem (pred_numeral k) (numeral m div 2))"
    by (simp add: scan_rem_numeral)
  show "scan_rem (numeral k) 1 = numeral k" "scan_rem (numeral k) (Suc 0) = numeral k"
    by (simp_all add: scan_rem_numeral)
  show "scan_rem 1 j = (if odd j then 1 else 0)" "scan_rem (Suc 0) j = (if odd j then 1 else 0)"
    by simp_all
qed

lemmas board_invariants_eval = board_invariants_def[of "\<lparr>players = p, pieces = q, flags = fl\<rparr>"] for p q fl

lemmas eval_rules = piece_defs flag_defs move_flag_defs mode_defs
  bitboard_check_square_def bitboard_set_square_def bitboard_clear_square_def
  bitboard_popcount_nat popcount_nat_eval bitboard_scan_lsb_nat scan_rem_eval
  board_pos_from_xy_def board_pos_to_x_def board_pos_to_y_def
  board_get_full_turn_number_def board_player_to_move_def board_get_en_passant_target_def
  board_piece_on_square_def board_player_on_square_def board_invariants_eval
  move_source_square_def move_destination_square_def move_is_promotion_def move_promotion_piece_def
  move_is_capture_def move_capture_piece_def move_capture_square_def move_is_castle_def
  construct_move_def en_passant_target_to_pawn_pos_def
  set_player_sq_def clear_player_sq_def set_piece_sq_def clear_piece_sq_def board_clear_castling_def
  move_gen_make_castle_def revoke_rook_castling_def make_capture_def make_regular_def make_update_ep_def
  set_turn_number_def board_make_move_def unmake_castle_rook_def board_unmake_move_def other_player_def
  knight_step_def move_gen_knights_def king_step_def move_gen_kings_def
  gen_ray_moves_def gen_rook_moves_def gen_bishop_moves_def rook_move_lookup_def bishop_move_lookup_def
  queen_magic_lookup_def move_gen_pawns_def pawn_move_lookup_def move_gen_reg_moves_mask_def
  board_occupancy_for_sliders_lookups_def board_occupancy_for_pawns_lookups_def
  board_is_square_attacked_def board_player_in_check_def move_gen_init_def move_gen_next_promote_def
  move_gen_next_from_cur_moves_def board_can_castle_def move_gen_castle_def advance_square_def
  advance_loop.simps move_gen_next.simps ray_loop_numeral castle_path_clear_numeral
  Let_def


lemma fen_ranks_numeral:
  "fen_ranks (numeral n) b s =
     (case fen_rank b 0 (int (pred_numeral n)) s of
        None \<Rightarrow> None
      | Some (b1, s1) \<Rightarrow>
          (case s1 of [] \<Rightarrow> None | c # s2 \<Rightarrow> fen_ranks (pred_numeral n) b1 s2))"
  by (simp add: numeral_eq_Suc)

lemmas fen_rules = char_code_def cur_char_def isspace_def board_pos_from_str_def
  board_piece_char_to_piece_def board_piece_char_to_player_def fen_ranks_numeral
  atoi_def fen_en_passant_def fen_skip_halfmove_def board_from_fen_str_def

subsection \<open>The standard initial position\<close>

definition initial_board :: board where
  "initial_board =
     \<lparr>players = [0xFFFF, 0xFFFF000000000000],
      pieces = [0x1000000000000010, 0x00FF00000000FF00, 0x4200000000000042,
                0x8100000000000081, 0x2400000000000024, 0x0800000000000008],
      flags = 0x10F00\<rparr>"

lemma initial_board_fen:
  "board_from_fen_str ''rnbqkbnr/pppppppp/8/8/8/8/PPPPPPPP/RNBQKBNR w KQkq - 0 1''
     = Some initial_board"
  by (simp add: eval_rules fen_rules initial_board_def)

section \<open>The guard of move_new against capturing an own piece\<close>

text \<open>
  Claim C10.  For every board and all squares \<open>src\<close>, \<open>dst\<close> below 64: when a piece
  stands on \<open>dst\<close> (\<open>board_piece_on_square\<close> finds one) and it belongs to the player to
  move (\<open>board_player_on_square\<close> answers \<open>board_player_to_move\<close>), \<open>move_new\<close> returns
  \<open>MOVE_END\<close>, whatever the promotion arguments are.
\<close>

theorem move_new_own_piece_MOVE_END:
  assumes "src < 64" and "dst < 64"
    and "board_piece_on_square b dst \<noteq> - 1"
    and "board_player_on_square b dst = int (board_player_to_move b)"
  shows "move_new src dst is_promote promote_piece b = Some MOVE_END"
  using assms by (simp add: move_new_def)

text \<open>The guard at work on the initial position: a2 (square 8) holds a white pawn and
  White is to move, so a move from a1 to a2 is refused.\<close>

theorem move_new_own_piece_MOVE_END_witness:
  "board_piece_on_square initial_board 8 \<noteq> - 1
   \<and> board_player_on_square initial_board 8 = int (board_player_to_move initial_board)
   \<and> move_new 0 8 False 0 initial_board = Some MOVE_END"
  using move_new_own_piece_MOVE_END [of 0 8 initial_board False 0]
  by (simp add: eval_rules initial_board_def)

section \<open>The END mode: checkmate, stalemate or normal\<close>

definition stalemate_board :: board where
  "stalemate_board =
     \<lparr>players = [0x0020400000000000, 0x8000000000000000],
      pieces = [0x8000400000000000, 0, 0, 0, 0, 0x0020000000000000],
      flags = 0x10080\<rparr>"

lemma stalemate_board_fen:
  "board_from_fen_str ''7k/5Q2/6K1/8/8/8/8/8 b - - 0 1'' = Some stalemate_board"
  by (simp add: eval_rules fen_rules stalemate_board_def)

lemma stalemate_board_next:
  "move_gen_next (move_gen_init stalemate_board) True =
     Some (MOVE_END, (move_gen_init stalemate_board)
             \<lparr>cur_mode := MOVE_GEN_MODE_END, cur_piece_type := 6,
              gen_done := MOVE_DONE_STALEMATE\<rparr>)"
  by (simp add: eval_rules stalemate_board_def)

lemma stalemate_board_collect:
  "move_gen_collect (move_gen_init stalemate_board) =
     Some ([], (move_gen_init stalemate_board)
             \<lparr>cur_mode := MOVE_GEN_MODE_END, cur_piece_type := 6,
              gen_done := MOVE_DONE_STALEMATE\<rparr>)"
  by (subst move_gen_collect.simps) (simp add: move_gen_next_move_def stalemate_board_next)

lemma move_gen_next_END:
  assumes "board_invariants (board g)" and "cur_mode g = MOVE_GEN_MODE_END"
  shows "\<exists>c. board_player_in_check (board g) (board_player_to_move (board g)) = Some c
           \<and> move_gen_next g u =
               Some (MOVE_END,
                     g\<lparr>gen_done := (if hit_move g \<noteq> 0 then MOVE_DONE_NORMAL
                                    else if c \<noteq> 0 then MOVE_DONE_CHECKMATE
                                    else MOVE_DONE_STALEMATE)\<rparr>)"
proof -
  from board_invariants_in_check[OF assms(1)] obtain c where
    c: "board_player_in_check (board g) (board_player_to_move (board g)) = Some c" by blast
  with assms show ?thesis
    by (subst move_gen_next.simps) (simp add: Let_def)
qed

lemma move_gen_collect_verdict:
  assumes "move_gen_collect (move_gen_init b) = Some (ms, gf)"
  shows "\<exists>c. board_player_in_check (board gf) (board_player_to_move (board gf)) = Some c
           \<and> move_gen_is_checkmate gf = Some (ms = [] \<and> c \<noteq> 0)
           \<and> move_gen_is_stalemate gf = Some (ms = [] \<and> c = 0)"
proof -
  from move_gen_collect_hit[OF assms]
  have cl: "gen_classified gf" and hit: "hit_move gf \<noteq> 0 \<longleftrightarrow> ms \<noteq> []"
    by (simp_all add: move_gen_init_def)
  from cl obtain c where
    c: "board_player_in_check (board gf) (board_player_to_move (board gf)) = Some c"
    and d: "gen_done gf = (if hit_move gf \<noteq> 0 then MOVE_DONE_NORMAL
                           else if c \<noteq> 0 then MOVE_DONE_CHECKMATE else MOVE_DONE_STALEMATE)"
    unfolding gen_classified_def by blast
  from d hit have "move_gen_is_checkmate gf = Some (ms = [] \<and> c \<noteq> 0)"
    "move_gen_is_stalemate gf = Some (ms = [] \<and> c = 0)"
    by (auto simp: move_gen_is_checkmate_def move_gen_is_stalemate_def mode_defs)
  with c show ?thesis by blast
qed

text \<open>
  Claim C9.  A call of the generator in its END mode, on a board that passes the entry
  assertions, returns \<open>MOVE_END\<close> and sets \<open>done\<close>: to normal when a move was emitted
  before (\<open>hit_move\<close> is set), and otherwise to checkmate when the player to move is in
  check and to stalemate when not.  Run to exhaustion from \<open>move_gen_init\<close>, the generator
  therefore reports checkmate exactly when it emitted no move and the player to move is in
  check, and stalemate exactly when it emitted no move and the player is not in check.
  The position \<open>7k/5Q2/6K1/8/8/8/8/8 b - - 0 1\<close> yields no move at all and is reported as
  stalemate, not as checkmate.
\<close>

theorem move_gen_end_classification:
  "(\<forall>(g :: move_gen) u. board_invariants (board g) \<and> cur_mode g = MOVE_GEN_MODE_END \<longrightarrow>
      (\<exists>c. board_player_in_check (board g) (board_player_to_move (board g)) = Some c
         \<and> move_gen_next g u =
             Some (MOVE_END,
                   g\<lparr>gen_done := (if hit_move g \<noteq> 0 then MOVE_DONE_NORMAL
                                  else if c \<noteq> 0 then MOVE_DONE_CHECKMATE
                                  else MOVE_DONE_STALEMATE)\<rparr>)))
   \<and> (\<forall>b ms gf. move_gen_collect (move_gen_init b) = Some (ms, gf) \<longrightarrow>
      (\<exists>c. board_player_in_check (board gf) (board_player_to_move (board gf)) = Some c
         \<and> move_gen_is_checkmate gf = Some (ms = [] \<and> c \<noteq> 0)
         \<and> move_gen_is_stalemate gf = Some (ms = [] \<and> c = 0)))
   \<and> board_from_fen_str ''7k/5Q2/6K1/8/8/8/8/8 b - - 0 1'' = Some stalemate_board
   \<and> move_gen_next_move (move_gen_init stalemate_board) =
        Some (MOVE_END, (move_gen_init stalemate_board)
                \<lparr>cur_mode := MOVE_GEN_MODE_END, cur_piece_type := 6,
                 gen_done := MOVE_DONE_STALEMATE\<rparr>)
   \<and> board_is_stalemate stalemate_board = Some True
   \<and> board_is_checkmate stalemate_board = Some False"
proof (intro conjI allI impI)
  fix g :: move_gen and u
  assume "board_invariants (board g) \<and> cur_mode g = MOVE_GEN_MODE_END"
  then show "\<exists>c. board_player_in_check (board g) (board_player_to_move (board g)) = Some c
         \<and> move_gen_next g u =
             Some (MOVE_END,
                   g\<lparr>gen_done := (if hit_move g \<noteq> 0 then MOVE_DONE_NORMAL
                                  else if c \<noteq> 0 then MOVE_DONE_CHECKMATE
                                  else MOVE_DONE_STALEMATE)\<rparr>)"
    using move_gen_next_END[of g u] by blast
next
  fix b ms gf
  assume "move_gen_collect (move_gen_init b) = Some (ms, gf)"
  then show "\<exists>c. board_player_in_check (board gf) (board_player_to_move (board gf)) = Some c
         \<and> move_gen_is_checkmate gf = Some (ms = [] \<and> c \<noteq> 0)
         \<and> move_gen_is_stalemate gf = Some (ms = [] \<and> c = 0)"
    by (rule move_gen_collect_verdict)
next
  show "board_from_fen_str ''7k/5Q2/6K1/8/8/8/8/8 b - - 0 1'' = Some stalemate_board"
    by (rule stalemate_board_fen)
next
  show "move_gen_next_move (move_gen_init stalemate_board) =
        Some (MOVE_END, (move_gen_init stalemate_board)
                \<lparr>cur_mode := MOVE_GEN_MODE_END, cur_piece_type := 6,
                 gen_done := MOVE_DONE_STALEMATE\<rparr>)"
    by (simp add: move_gen_next_move_def stalemate_board_next)
next
  show "board_is_stalemate stalemate_board = Some True"
    by (simp add: board_is_stalemate_def stalemate_board_collect move_gen_is_stalemate_def
          mode_defs)
next
  show "board_is_checkmate stalemate_board = Some False"
    by (simp add: board_is_checkmate_def stalemate_board_collect move_gen_is_checkmate_def
          mode_defs)
qed

text \<open>The first part at work: the generator of the stalemate position, put into its END
  mode, passes the entry assertions and is classified as stalemate.\<close>

theorem move_gen_end_classification_witness:
  "board_invariants (board ((move_gen_init stalemate_board)\<lparr>cur_mode := MOVE_GEN_MODE_END\<rparr>))
   \<and> cur_mode ((move_gen_init stalemate_board)\<lparr>cur_mode := MOVE_GEN_MODE_END\<rparr>)
       = MOVE_GEN_MODE_END
   \<and> move_gen_next ((move_gen_init stalemate_board)\<lparr>cur_mode := MOVE_GEN_MODE_END\<rparr>) True
       = Some (MOVE_END, (move_gen_init stalemate_board)
                 \<lparr>cur_mode := MOVE_GEN_MODE_END, gen_done := MOVE_DONE_STALEMATE\<rparr>)"
proof -
  let ?g = "(move_gen_init stalemate_board)\<lparr>cur_mode := MOVE_GEN_MODE_END\<rparr>"
  have inv: "board_invariants (board ?g)"
    by (simp add: eval_rules stalemate_board_def)
  have chk: "board_player_in_check (board ?g) (board_player_to_move (board ?g)) = Some 0"
    by (simp add: eval_rules stalemate_board_def)
  have hit: "hit_move ?g = 0" by (simp add: move_gen_init_def)
  have "\<exists>c. board_player_in_check (board ?g) (board_player_to_move (board ?g)) = Some c
         \<and> move_gen_next ?g True =
             Some (MOVE_END,
                   ?g\<lparr>gen_done := (if hit_move ?g \<noteq> 0 then MOVE_DONE_NORMAL
                                  else if c \<noteq> 0 then MOVE_DONE_CHECKMATE
                                  else MOVE_DONE_STALEMATE)\<rparr>)"
  proof (rule move_gen_end_classification[THEN conjunct1, rule_format])
    show "board_invariants (board ?g) \<and> cur_mode ?g = MOVE_GEN_MODE_END"
      using inv by simp
  qed
  then obtain c where "board_player_in_check (board ?g) (board_player_to_move (board ?g)) = Some c"
    and nx: "move_gen_next ?g True =
             Some (MOVE_END,
                   ?g\<lparr>gen_done := (if hit_move ?g \<noteq> 0 then MOVE_DONE_NORMAL
                                  else if c \<noteq> 0 then MOVE_DONE_CHECKMATE
                                  else MOVE_DONE_STALEMATE)\<rparr>)"
    by blast
  with chk have "c = 0" by simp
  with nx hit inv show ?thesis by simp
qed

section \<open>Promotions and castles on two positions\<close>

text \<open>The moves the generator emits for a board, in the order of emission, each written
  by \<open>move_to_str\<close>: the loop of \<open>board_is_checkmate\<close> with the moves kept.\<close>

definition board_move_strs :: "board \<Rightarrow> string option list option" where
  "board_move_strs b =
     (case move_gen_collect (move_gen_init b) of
        None \<Rightarrow> None
      | Some (ms, g) \<Rightarrow> Some (map move_to_str ms))"

lemmas str_rules = move_to_str_def board_pos_to_str_def promote_codes_def char_code_def
  char_of_def bit_0 bit_Suc_0_iff

subsection \<open>The order of the promotions\<close>

definition promo_board :: board where
  "promo_board =
     \<lparr>players = [0x0001000000000080, 0x0000000000000001],
      pieces = [0x0000000000000081, 0x0001000000000000, 0, 0, 0, 0],
      flags = 0x10000\<rparr>"

lemma promo_board_fen:
  "board_from_fen_str ''8/P7/8/8/8/8/8/k6K w - - 0 1'' = Some promo_board"
  by (simp add: eval_rules fen_rules promo_board_def)

lemma promo_board_collect:
  "move_gen_collect (move_gen_init promo_board) =
     Some ([1099366400, 1132920832, 1137115136, 1580204032, 2117074944, 2653945856, 3190816768],
           (move_gen_init promo_board)
             \<lparr>cur_mode := MOVE_GEN_MODE_END, cur_piece_type := 6,
              gen_done := MOVE_DONE_NORMAL, hit_move := 1\<rparr>)"
  by (simp add: eval_rules promo_board_def move_gen_collect.simps move_gen_next_move_def)

lemma promo_board_strs:
  "board_move_strs promo_board =
     Some [Some ''h1g1'', Some ''h1g2'', Some ''h1h2'', Some ''a7a8n'', Some ''a7a8r'',
           Some ''a7a8b'', Some ''a7a8q'']"
  unfolding board_move_strs_def promo_board_collect
  by (simp add: eval_rules str_rules)

text \<open>
  Claim C3, as the code has it.  The promotion piece of the generator starts as the knight
  and \<open>move_gen_next_promote\<close> steps it through the piece codes: knight (2), rook (3),
  bishop (4), queen (5), and back to the knight; \<open>move_to_str\<close> writes these codes as
  \<open>n\<close>, \<open>r\<close>, \<open>b\<close>, \<open>q\<close>.  From \<open>8/P7/8/8/8/8/8/k6K w - - 0 1\<close> the generator emits the
  three moves of the white king and then the four promotions in the order a7a8n, a7a8r,
  a7a8b, a7a8q: knight, rook, bishop, queen.
\<close>

theorem promotions_knight_rook_bishop_queen:
  "cur_promotion (move_gen_init b) = KNIGHT
   \<and> move_gen_next_promote (g\<lparr>cur_promotion := KNIGHT\<rparr>) = g\<lparr>cur_promotion := ROOK\<rparr>
   \<and> move_gen_next_promote (g\<lparr>cur_promotion := ROOK\<rparr>) = g\<lparr>cur_promotion := BISHOP\<rparr>
   \<and> move_gen_next_promote (g\<lparr>cur_promotion := BISHOP\<rparr>) = g\<lparr>cur_promotion := QUEEN\<rparr>
   \<and> move_gen_next_promote (g\<lparr>cur_promotion := QUEEN\<rparr>) = g\<lparr>cur_promotion := KNIGHT\<rparr>
   \<and> [promote_codes ! KNIGHT, promote_codes ! ROOK, promote_codes ! BISHOP, promote_codes ! QUEEN]
       = ''nrbq''
   \<and> board_from_fen_str ''8/P7/8/8/8/8/8/k6K w - - 0 1'' = Some promo_board
   \<and> board_move_strs promo_board =
       Some [Some ''h1g1'', Some ''h1g2'', Some ''h1h2'', Some ''a7a8n'', Some ''a7a8r'',
             Some ''a7a8b'', Some ''a7a8q'']"
  by (simp add: move_gen_init_def move_gen_next_promote_def piece_defs promote_codes_def
        promo_board_fen promo_board_strs)

text \<open>The order knight, bishop, rook, queen is not the order of emission: after the three
  king moves come a7a8n, a7a8r, a7a8b, a7a8q.\<close>

theorem promotions_not_knight_bishop_rook_queen:
  "board_from_fen_str ''8/P7/8/8/8/8/8/k6K w - - 0 1'' = Some promo_board
   \<and> map_option (drop 3) (board_move_strs promo_board)
       = Some [Some ''a7a8n'', Some ''a7a8r'', Some ''a7a8b'', Some ''a7a8q'']
   \<and> map_option (drop 3) (board_move_strs promo_board)
       \<noteq> Some [Some ''a7a8n'', Some ''a7a8b'', Some ''a7a8r'', Some ''a7a8q'']"
  by (simp add: promo_board_fen promo_board_strs)

subsection \<open>No castle out of check\<close>

definition castle_board :: board where
  "castle_board =
     \<lparr>players = [0x0000000000000091, 0x9100000000001000],
      pieces = [0x1000000000000010, 0, 0, 0x8100000000001081, 0, 0],
      flags = 0x10F00\<rparr>"

lemma castle_board_fen:
  "board_from_fen_str ''r3k2r/8/8/8/8/8/4r3/R3K2R w KQkq - 0 1'' = Some castle_board"
  by (simp add: eval_rules fen_rules castle_board_def)

lemma castle_board_collect:
  "move_gen_collect (move_gen_init castle_board) =
     Some ([1086590720, 1094979328, 855822831360],
           (move_gen_init castle_board)
             \<lparr>cur_mode := MOVE_GEN_MODE_END, cur_piece_type := 6,
              gen_done := MOVE_DONE_NORMAL, hit_move := 1\<rparr>)"
  by (simp add: eval_rules castle_board_def move_gen_collect.simps move_gen_next_move_def)

lemma castle_board_strs:
  "board_move_strs castle_board = Some [Some ''e1d1'', Some ''e1f1'', Some ''e1e2'']"
  unfolding board_move_strs_def castle_board_collect
  by (simp add: eval_rules str_rules)

lemma castle_board_check:
  "board_player_in_check castle_board WHITE = Some 0x1000"
  by (simp add: eval_rules castle_board_def)

lemma move_gen_castle_attacked_king:
  assumes "board_is_square_attacked (board g)
             (board_pos_from_xy 4 (if player = WHITE then 0 else 7)) (other_player player) \<noteq> 0"
    and "move_gen_castle g player side u = Some (m, g1)"
  shows "m = MOVE_END"
proof -
  have x: "board_pos_to_x (board_pos_from_xy 4 0) = 4" "board_pos_to_x (board_pos_from_xy 4 7) = 4"
    by (simp_all add: board_pos_to_x_def board_pos_from_xy_def)
  from assms show ?thesis
    unfolding move_gen_castle_def Let_def
    by (auto simp: x split: if_splits)
qed

text \<open>
  Claim C5, as the code has it.  \<open>move_gen_castle\<close> returns no castle when the king's own
  square is attacked: the first of the three squares it tests is the king's.  In
  \<open>r3k2r/8/8/8/8/8/4r3/R3K2R w KQkq - 0 1\<close> the rook on e2 attacks the king on e1, so
  the generator emits neither e1c1 nor e1g1; it emits the three king moves e1d1, e1f1 and
  e1e2, and nothing else.
\<close>

theorem no_castle_out_of_check:
  "(\<forall>(g :: move_gen) player side u m g1.
      board_is_square_attacked (board g)
        (board_pos_from_xy 4 (if player = WHITE then 0 else 7)) (other_player player) \<noteq> 0
      \<and> move_gen_castle g player side u = Some (m, g1) \<longrightarrow> m = MOVE_END)
   \<and> board_from_fen_str ''r3k2r/8/8/8/8/8/4r3/R3K2R w KQkq - 0 1'' = Some castle_board
   \<and> board_player_in_check castle_board WHITE = Some 0x1000
   \<and> board_move_strs castle_board = Some [Some ''e1d1'', Some ''e1f1'', Some ''e1e2'']"
proof (intro conjI allI impI)
  fix g :: move_gen and player side u m g1
  assume "board_is_square_attacked (board g)
        (board_pos_from_xy 4 (if player = WHITE then 0 else 7)) (other_player player) \<noteq> 0
      \<and> move_gen_castle g player side u = Some (m, g1)"
  then show "m = MOVE_END"
    using move_gen_castle_attacked_king[of g player side u m g1] by blast
qed (simp_all add: castle_board_fen castle_board_check castle_board_strs)

text \<open>The first part on the position of the claim: the queen-side castle of White is
  refused.\<close>

theorem no_castle_out_of_check_witness:
  "board_is_square_attacked (board (move_gen_init castle_board))
     (board_pos_from_xy 4 (if WHITE = WHITE then 0 else 7)) (other_player WHITE) \<noteq> 0
   \<and> move_gen_castle (move_gen_init castle_board) WHITE QUEEN True
       = Some (MOVE_END, move_gen_init castle_board)"
proof -
  let ?g = "move_gen_init castle_board"
  have att: "board_is_square_attacked (board ?g)
     (board_pos_from_xy 4 (if WHITE = WHITE then 0 else 7)) (other_player WHITE) \<noteq> 0"
    by (simp add: eval_rules castle_board_def)
  have "\<exists>m. move_gen_castle ?g WHITE QUEEN True = Some (m, ?g)"
    by (simp add: eval_rules castle_board_def)
  then obtain m where c: "move_gen_castle ?g WHITE QUEEN True = Some (m, ?g)" by blast
  from no_castle_out_of_check att c have "m = MOVE_END" by blast
  with att c show ?thesis by simp
qed

text \<open>The queen-side castle e1c1 is not among the moves emitted.\<close>

theorem castle_e1c1_not_emitted:
  "board_from_fen_str ''r3k2r/8/8/8/8/8/4r3/R3K2R w KQkq - 0 1'' = Some castle_board
   \<and> board_move_strs castle_board = Some [Some ''e1d1'', Some ''e1f1'', Some ''e1e2'']
   \<and> Some ''e1c1'' \<notin> set [Some ''e1d1'', Some ''e1f1'', Some ''e1e2'']"
  by (simp add: castle_board_fen castle_board_strs)

section \<open>What move_from_str returns\<close>

lemma char_codes:
  "char_code (CHR ''a'') = 97" "char_code (CHR ''h'') = 104"
  "char_code (CHR ''A'') = 65" "char_code (CHR ''H'') = 72"
  "char_code (CHR ''1'') = 49" "char_code (CHR ''8'') = 56"
  "char_code (CHR 0x00) = 0"
  by (simp_all add: char_code_def)

lemma board_pos_from_str_wellformed:
  assumes "file_wellformed f" and "rank_wellformed r"
  shows "\<exists>p<64. board_pos_from_str [f, r] = Some p"
  using assms
  unfolding board_pos_from_str_def file_wellformed_def rank_wellformed_def cur_char_def
    Let_def board_pos_from_xy_def char_codes
  by (auto simp: BOARD_POS_INVALID_def)

lemma board_pos_from_str_malformed:
  assumes "\<not> (file_wellformed f \<and> rank_wellformed r)"
  shows "board_pos_from_str [f, r] = None"
  using assms
  unfolding board_pos_from_str_def file_wellformed_def rank_wellformed_def cur_char_def
    Let_def char_codes
  by auto

lemma take2_drop: "n + 2 \<le> length s \<Longrightarrow> take 2 (drop n s) = [s ! n, s ! Suc n]"
  by (simp add: take_Suc_conv_app_nth numeral_2_eq_2 flip: append_Cons)

lemma str_at_nth: "i < length s \<Longrightarrow> str_at s i = s ! i"
  by (simp add: str_at_def cur_char_def flip: Cons_nth_drop_Suc)

lemma str_at_end: "str_at s (length s) = CHR 0x00"
  by (simp add: str_at_def cur_char_def)

lemma promote_piece_of_codes:
  "promote_piece_of c = - 1 \<longleftrightarrow> c \<notin> set promote_codes"
  by (simp add: promote_piece_of_def promote_codes_def)

lemma move_from_str_bad_promotion:
  assumes "5 \<le> length s" and "s ! 4 \<noteq> CHR 0x00" and "s ! 4 \<notin> set promote_codes"
  shows "move_from_str s b = Some MOVE_END"
proof -
  from assms(1) have "str_at s 4 = s ! 4" by (simp add: str_at_nth)
  with assms show ?thesis
    by (simp add: move_from_str_def Let_def promote_piece_of_codes)
qed

lemma move_from_str_bad_square:
  assumes "4 \<le> length s"
    and "5 \<le> length s \<longrightarrow> s ! 4 = CHR 0x00 \<or> s ! 4 \<in> set promote_codes"
    and "\<not> (file_wellformed (s ! 0) \<and> rank_wellformed (s ! 1)
            \<and> file_wellformed (s ! 2) \<and> rank_wellformed (s ! 3))"
  shows "move_from_str s b = None"
proof -
  have t: "take 2 s = [s ! 0, s ! 1]" "take 2 (drop 2 s) = [s ! 2, s ! 3]"
    using assms(1) take2_drop[of 0 s] take2_drop[of 2 s] by (simp_all add: numeral_3_eq_3)
  have p: "\<not> (str_at s 4 \<noteq> CHR 0x00 \<and> promote_piece_of (str_at s 4) = - 1)"
  proof (cases "5 \<le> length s")
    case True
    then have "str_at s 4 = s ! 4" by (simp add: str_at_nth)
    with assms(2) True show ?thesis by (auto simp: promote_piece_of_codes)
  next
    case False
    with assms(1) have "length s = 4" by simp
    then show ?thesis using str_at_end[of s] by simp
  qed
  from assms(3) have "board_pos_from_str [s ! 0, s ! 1] = None
      \<or> board_pos_from_str [s ! 2, s ! 3] = None"
    using board_pos_from_str_malformed[of "s ! 0" "s ! 1"]
      board_pos_from_str_malformed[of "s ! 2" "s ! 3"] by auto
  with assms(1) p show ?thesis
    by (auto simp: move_from_str_def Let_def t split: option.splits)
qed

lemma move_from_str_wellformed:
  assumes "move_str_is_wellformed s"
  shows "\<exists>src<64. \<exists>dst<64.
           board_pos_from_str [s ! 0, s ! 1] = Some src
         \<and> board_pos_from_str [s ! 2, s ! 3] = Some dst
         \<and> move_from_str s b =
             move_new src dst (length s = 5)
               (if length s = 5 then promote_piece_of (s ! 4) else - 1) b"
proof -
  from assms have len: "length s = 4 \<or> length s = 5"
    and wf: "file_wellformed (s ! 0)" "rank_wellformed (s ! 1)"
            "file_wellformed (s ! 2)" "rank_wellformed (s ! 3)"
    and pr: "length s = 5 \<longrightarrow> promote_wellformed (s ! 4)"
    by (auto simp: move_str_is_wellformed_def str_at_nth split: if_splits)
  have t: "take 2 s = [s ! 0, s ! 1]" "take 2 (drop 2 s) = [s ! 2, s ! 3]"
    using len take2_drop[of 0 s] take2_drop[of 2 s] by (auto simp: numeral_3_eq_3)
  from board_pos_from_str_wellformed[OF wf(1,2)] obtain src where
    src: "src < 64" "board_pos_from_str [s ! 0, s ! 1] = Some src" by blast
  from board_pos_from_str_wellformed[OF wf(3,4)] obtain dst where
    dst: "dst < 64" "board_pos_from_str [s ! 2, s ! 3] = Some dst" by blast
  have "move_from_str s b =
             move_new src dst (length s = 5)
               (if length s = 5 then promote_piece_of (s ! 4) else - 1) b"
  proof (cases "length s = 5")
    case True
    then have at: "str_at s 4 = s ! 4" by (simp add: str_at_nth)
    from pr True have "s ! 4 \<noteq> CHR 0x00" "promote_piece_of (s ! 4) \<noteq> - 1"
      by (auto simp: promote_wellformed_def promote_piece_of_codes promote_codes_def)
    with True at src dst show ?thesis
      by (simp add: move_from_str_def Let_def t)
  next
    case False
    with len have l4: "length s = 4" by simp
    then have "str_at s 4 = CHR 0x00" using str_at_end[of s] by simp
    with l4 src dst show ?thesis
      by (simp add: move_from_str_def Let_def t)
  qed
  with src dst show ?thesis by blast
qed

lemma move_new_finish_not_MOVE_END:
  "move_new_finish b src dst ip pp ic cp cs \<noteq> MOVE_END"
  by (simp add: move_new_finish_def Let_def construct_move_not_MOVE_END)

lemma move_new_MOVE_END_iff:
  "move_new src dst ip pp b = Some MOVE_END \<longleftrightarrow>
     dst < 64 \<and>
     ((board_piece_on_square b dst \<noteq> - 1
        \<and> board_player_on_square b dst = int (board_player_to_move b))
      \<or> (src < 64 \<and> dst = board_get_en_passant_target b
          \<and> board_piece_on_square b src = int PAWN
          \<and> (\<exists>ep_pos<64. en_passant_target_to_pawn_pos dst = Some ep_pos
                \<and> board_piece_on_square b ep_pos \<noteq> int PAWN)))"
  by (auto simp: move_new_def Let_def move_new_finish_not_MOVE_END
        split: if_splits option.splits)

lemma stalemate_board_h8g8_illegal:
  "move_is_legal 4393478848640 stalemate_board = Some False"
  by (simp add: move_is_legal_def MOVE_END_def move_is_legal_loop.simps move_gen_next_move_def
        stalemate_board_next)

lemma minus_one_fields:
  "(NOT (mask 29) :: 64 word) AND 3758096384 = 3758096384"
  "(NOT (mask 33) :: 64 word) AND 60129542144 = 60129542144"
proof -
  have g: "(NOT (mask n) :: 64 word) AND push_bit n k = push_bit n k" for n k
    by (rule bit_eqI) (auto simp: bit_simps)
  show "(NOT (mask 29) :: 64 word) AND 3758096384 = 3758096384"
    "(NOT (mask 33) :: 64 word) AND 60129542144 = 60129542144"
    using g[of 29 7] g[of 33 7] by simp_all
qed

lemma move_from_str_examples:
  "move_from_str ''z9z9'' initial_board = None"
  "move_from_str ''h8g8'' stalemate_board = Some 4393478848640"
  "move_str_is_wellformed ''h8g8''"
  "\<not> move_str_is_wellformed ''z9z9''"
  by (simp_all add: move_from_str_def move_str_is_wellformed_def str_at_def file_wellformed_def
        rank_wellformed_def promote_wellformed_def move_new_def move_new_finish_def
        eval_rules fen_rules initial_board_def stalemate_board_def minus_one_fields)

text \<open>
  Claim C4, as the code has it.  \<open>move_from_str\<close> returns \<open>MOVE_END\<close> for a string
  whose fifth character is none of \<open>k p n r b q\<close>, and it decides this before it looks at
  the squares.  A string of four characters, or of five with one of these six letters,
  whose first four characters are not file, rank, file, rank fails an assertion of
  \<open>board_pos_from_str\<close>: the call aborts and returns nothing.  For a well-formed string the
  result is that of \<open>move_new\<close> on the two squares, and \<open>move_new\<close> returns \<open>MOVE_END\<close>
  in two cases only: the destination holds a piece of the player to move, or the move is a
  pawn's move to the en-passant target and the square behind the target holds no pawn.
  The legality of the move is not examined.
\<close>

theorem move_from_str_results:
  "(\<forall>s b. 5 \<le> length s \<and> s ! 4 \<noteq> CHR 0x00 \<and> s ! 4 \<notin> set promote_codes
        \<longrightarrow> move_from_str s b = Some MOVE_END)
   \<and> (\<forall>s b. 4 \<le> length s
          \<and> (5 \<le> length s \<longrightarrow> s ! 4 = CHR 0x00 \<or> s ! 4 \<in> set promote_codes)
          \<and> \<not> (file_wellformed (s ! 0) \<and> rank_wellformed (s ! 1)
                 \<and> file_wellformed (s ! 2) \<and> rank_wellformed (s ! 3))
        \<longrightarrow> move_from_str s b = None)
   \<and> (\<forall>s b. move_str_is_wellformed s \<longrightarrow>
        (\<exists>src<64. \<exists>dst<64.
             board_pos_from_str [s ! 0, s ! 1] = Some src
           \<and> board_pos_from_str [s ! 2, s ! 3] = Some dst
           \<and> move_from_str s b =
               move_new src dst (length s = 5)
                 (if length s = 5 then promote_piece_of (s ! 4) else - 1) b))
   \<and> (\<forall>src dst ip pp b.
        move_new src dst ip pp b = Some MOVE_END \<longleftrightarrow>
          dst < 64 \<and>
          ((board_piece_on_square b dst \<noteq> - 1
             \<and> board_player_on_square b dst = int (board_player_to_move b))
           \<or> (src < 64 \<and> dst = board_get_en_passant_target b
               \<and> board_piece_on_square b src = int PAWN
               \<and> (\<exists>ep_pos<64. en_passant_target_to_pawn_pos dst = Some ep_pos
                     \<and> board_piece_on_square b ep_pos \<noteq> int PAWN))))"
  using move_from_str_bad_promotion move_from_str_bad_square move_from_str_wellformed
    move_new_MOVE_END_iff
  by (intro conjI allI impI) blast+

text \<open>The first two parts on the initial position: an unknown promotion letter gives
  \<open>MOVE_END\<close>, a square that is none aborts.\<close>

theorem move_from_str_results_witness:
  "5 \<le> length ''e2e4x'' \<and> ''e2e4x'' ! 4 \<noteq> CHR 0x00 \<and> ''e2e4x'' ! 4 \<notin> set promote_codes
   \<and> move_from_str ''e2e4x'' initial_board = Some MOVE_END
   \<and> 4 \<le> length ''z9z9'' \<and> \<not> 5 \<le> length ''z9z9''
   \<and> \<not> (file_wellformed (''z9z9'' ! 0) \<and> rank_wellformed (''z9z9'' ! 1)
          \<and> file_wellformed (''z9z9'' ! 2) \<and> rank_wellformed (''z9z9'' ! 3))
   \<and> move_from_str ''z9z9'' initial_board = None"
proof -
  have a: "5 \<le> length ''e2e4x'' \<and> ''e2e4x'' ! 4 \<noteq> CHR 0x00
      \<and> ''e2e4x'' ! 4 \<notin> set promote_codes"
    by (simp add: promote_codes_def)
  have b: "4 \<le> length ''z9z9''
      \<and> (5 \<le> length ''z9z9'' \<longrightarrow> ''z9z9'' ! 4 = CHR 0x00 \<or> ''z9z9'' ! 4 \<in> set promote_codes)
      \<and> \<not> (file_wellformed (''z9z9'' ! 0) \<and> rank_wellformed (''z9z9'' ! 1)
          \<and> file_wellformed (''z9z9'' ! 2) \<and> rank_wellformed (''z9z9'' ! 3))"
    by (simp add: file_wellformed_def rank_wellformed_def char_code_def)
  from move_from_str_results a
  have "move_from_str ''e2e4x'' initial_board = Some MOVE_END" by blast
  moreover from move_from_str_results b
  have "move_from_str ''z9z9'' initial_board = None" by blast
  ultimately show ?thesis using a b by simp
qed

text \<open>Against the claim: the malformed string \<open>z9z9\<close> aborts instead of giving
  \<open>MOVE_END\<close>; and the well-formed \<open>h8g8\<close>, a move that is not legal in the stalemate
  position above, gives a move that is not \<open>MOVE_END\<close>.\<close>

theorem move_from_str_not_MOVE_END:
  "\<not> move_str_is_wellformed ''z9z9''
   \<and> move_from_str ''z9z9'' initial_board = None
   \<and> move_str_is_wellformed ''h8g8''
   \<and> move_from_str ''h8g8'' stalemate_board = Some 4393478848640
   \<and> move_is_legal 4393478848640 stalemate_board = Some False
   \<and> (4393478848640 :: move) \<noteq> MOVE_END"
  by (simp add: move_from_str_examples stalemate_board_h8g8_illegal MOVE_END_def)

section \<open>The FEN round trip and a turn counter of four digits\<close>

subsection \<open>The flags word with the turn counter kept apart\<close>

text \<open>The flags word put together from the full-turn counter (bits 16 to 31) and the low
  half that the moves store (bits 0 to 15).  The equations below let the model run on a
  board whose counter is a variable: every operation of the source on the flags word acts
  on one of the halves.\<close>

definition turn_flags :: "16 word \<Rightarrow> 16 word \<Rightarrow> 32 word" where
  "turn_flags t l = push_bit 16 (ucast t) OR ucast l"

lemma bit_turn_flags:
  "bit (turn_flags t l) n \<longleftrightarrow> (n < 16 \<and> bit l n) \<or> (16 \<le> n \<and> n < 32 \<and> bit t (n - 16))"
  by (auto simp: turn_flags_def bit_simps dest: bit_imp_le_length)

lemma bit_ucast_16: "bit (ucast (c :: 32 word) :: 16 word) n \<longleftrightarrow> n < 16 \<and> bit c n"
  by (auto simp: bit_ucast_iff dest: bit_imp_le_length)

lemma bit_ucast_32: "bit (ucast (c :: 16 word) :: 32 word) n \<longleftrightarrow> bit c n"
  by (auto simp: bit_ucast_iff dest: bit_imp_le_length)

lemma high_mask: "(4294901760 :: 32 word) = push_bit 16 (mask 16)"
  by (simp add: mask_eq_exp_minus_1 push_bit_eq_mult)

lemma bit_high_mask: "bit (4294901760 :: 32 word) n \<longleftrightarrow> 16 \<le> n \<and> n < 32"
  unfolding high_mask by (auto simp: bit_push_bit_iff bit_mask_iff)

lemma low_bits:
  assumes "(c :: 32 word) AND 4294901760 = 0"
  shows "bit c n \<Longrightarrow> n < 16"
proof -
  assume b: "bit c n"
  then have n: "n < 32" using bit_imp_le_length[of c n] by simp
  have "bit (c AND 4294901760) n = bit (0 :: 32 word) n" using assms by simp
  with b have "\<not> bit (4294901760 :: 32 word) n" by (simp add: bit_and_iff)
  with n bit_high_mask[of n] show "n < 16" by auto
qed

lemma high_bits:
  assumes "(c :: 32 word) AND 4294901760 = 4294901760"
  shows "16 \<le> n \<Longrightarrow> n < 32 \<Longrightarrow> bit c n"
proof -
  assume n: "16 \<le> n" "n < 32"
  have "bit (c AND 4294901760) n = bit (4294901760 :: 32 word) n" using assms by simp
  then have "bit (4294901760 :: 32 word) n \<longrightarrow> bit c n" by (auto simp: bit_and_iff)
  with n bit_high_mask[of n] show "bit c n" by auto
qed

lemma turn_flags_and_low:
  assumes "(c :: 32 word) AND 4294901760 = 0"
  shows "turn_flags t l AND c = ucast (l AND ucast c)"
proof (rule bit_eqI)
  fix n
  show "bit (turn_flags t l AND c) n = bit (ucast (l AND ucast c) :: 32 word) n"
    using low_bits[OF assms, of n]
    by (auto simp: bit_and_iff bit_turn_flags bit_ucast_16 bit_ucast_32)
qed

lemma turn_flags_and_high:
  assumes "(c :: 32 word) AND 4294901760 = 4294901760"
  shows "turn_flags t l AND c = turn_flags t (l AND ucast c)"
proof (rule bit_eqI)
  fix n
  show "bit (turn_flags t l AND c) n = bit (turn_flags t (l AND ucast c)) n"
    using high_bits[OF assms, of n]
    by (auto simp: bit_and_iff bit_turn_flags bit_ucast_16)
qed

lemma turn_flags_or_low:
  assumes "(c :: 32 word) AND 4294901760 = 0"
  shows "turn_flags t l OR c = turn_flags t (l OR ucast c)"
proof (rule bit_eqI)
  fix n
  show "bit (turn_flags t l OR c) n = bit (turn_flags t (l OR ucast c)) n"
    using low_bits[OF assms, of n]
    by (auto simp: bit_or_iff bit_turn_flags bit_ucast_16)
qed

lemma turn_flags_xor_low:
  assumes "(c :: 32 word) AND 4294901760 = 0"
  shows "turn_flags t l XOR c = turn_flags t (l XOR ucast c)"
proof (rule bit_eqI)
  fix n
  show "bit (turn_flags t l XOR c) n = bit (turn_flags t (l XOR ucast c)) n"
    using low_bits[OF assms, of n]
    by (auto simp: bit_xor_iff bit_turn_flags bit_ucast_16)
qed

lemma turn_flags_ucast16: "(ucast (turn_flags t l) :: 16 word) = l"
  by (rule bit_eqI) (auto simp: bit_ucast_16 bit_turn_flags dest: bit_imp_le_length)


lemma bit_low_mask: "bit (65535 :: 32 word) n \<longleftrightarrow> n < 16"
proof -
  have e: "(65535 :: 32 word) = mask 16" by (simp add: mask_eq_exp_minus_1)
  show ?thesis unfolding e by (auto simp: bit_mask_iff)
qed

lemma turn_flags_turn_number:
  "board_get_full_turn_number \<lparr>players = p, pieces = q, flags = turn_flags t l\<rparr> = unat t"
proof -
  have "drop_bit 16 (turn_flags t l AND 4294901760) = (ucast t :: 32 word)"
  proof (rule bit_eqI)
    fix n
    show "bit (drop_bit 16 (turn_flags t l AND 4294901760)) n = bit (ucast t :: 32 word) n"
      using bit_high_mask[of "16 + n"] bit_imp_le_length[of t n] bit_low_mask[of n]
      by (auto simp: bit_drop_bit_eq bit_and_iff bit_turn_flags bit_ucast_32)
  qed
  moreover have "unat (ucast t :: 32 word) = unat t"
  proof -
    have "unat t < 2 ^ 16" using unsigned_less[of t] by simp
    also have "(2 :: nat) ^ 16 < 2 ^ 32" by simp
    finally show ?thesis
      by (simp add: unsigned_ucast_eq take_bit_nat_eq_self)
  qed
  ultimately show ?thesis
    by (simp add: board_get_full_turn_number_def flag_defs)
qed

lemma set_turn_number_turn_flags:
  "set_turn_number \<lparr>players = p, pieces = q, flags = turn_flags t l\<rparr> k
     = \<lparr>players = p, pieces = q, flags = turn_flags (word_of_int k) l\<rparr>"
proof -
  have "(turn_flags t l AND 65535) OR (push_bit 16 (word_of_int k) AND 4294901760)
      = turn_flags (word_of_int k) l"
  proof (rule bit_eqI)
    fix n
    show "bit ((turn_flags t l AND 65535) OR (push_bit 16 (word_of_int k) AND 4294901760)) n
        = bit (turn_flags (word_of_int k) l) n"
      using bit_high_mask[of n] bit_low_mask[of n]
      by (auto simp: bit_or_iff bit_and_iff bit_turn_flags bit_push_bit_iff bit_word_of_int_iff)
  qed
  then show ?thesis
    by (simp add: set_turn_number_def flag_defs)
qed

lemma word_of_int_unat_step:
  "(word_of_int (int (unat (s :: 16 word)) + 1) :: 16 word) = s + 1"
  "(word_of_int (int (unat (s :: 16 word)) - 1) :: 16 word) = s - 1"
  by simp_all

lemmas turn_rules = turn_flags_and_low turn_flags_and_high turn_flags_or_low turn_flags_xor_low
  turn_flags_ucast16 turn_flags_turn_number set_turn_number_turn_flags word_of_int_unat_step

lemmas legal_rules = move_is_legal_def move_is_legal_loop.simps moves_equal_def
  move_gen_next_move_def

subsection \<open>A game that returns to the initial placement\<close>

text \<open>The four positions of the knight shuffle b1a3 b8a6 a3b1 a6b8, with the full-turn
  counter \<open>t\<close>: all pieces at home and White to move; the knight on a3 and Black to move;
  the knights on a3 and a6 and White to move; the knight on a6 and Black to move.  The
  castling rights stay, no en-passant target arises.\<close>

definition knights_home :: "16 word \<Rightarrow> board" where
  "knights_home t =
     \<lparr>players = [0xFFFF, 0xFFFF000000000000],
      pieces = [0x1000000000000010, 0x00FF00000000FF00, 0x4200000000000042,
                0x8100000000000081, 0x2400000000000024, 0x0800000000000008],
      flags = turn_flags t 0x0F00\<rparr>"

definition knight_out_white :: "16 word \<Rightarrow> board" where
  "knight_out_white t =
     \<lparr>players = [0x1FFFD, 0xFFFF000000000000],
      pieces = [0x1000000000000010, 0x00FF00000000FF00, 0x4200000000010040,
                0x8100000000000081, 0x2400000000000024, 0x0800000000000008],
      flags = turn_flags t 0x0F80\<rparr>"

definition knights_out :: "16 word \<Rightarrow> board" where
  "knights_out t =
     \<lparr>players = [0x1FFFD, 0xFDFF010000000000],
      pieces = [0x1000000000000010, 0x00FF00000000FF00, 0x4000010000010040,
                0x8100000000000081, 0x2400000000000024, 0x0800000000000008],
      flags = turn_flags t 0x0F00\<rparr>"

definition knight_out_black :: "16 word \<Rightarrow> board" where
  "knight_out_black t =
     \<lparr>players = [0xFFFF, 0xFDFF010000000000],
      pieces = [0x1000000000000010, 0x00FF00000000FF00, 0x4000010000000042,
                0x8100000000000081, 0x2400000000000024, 0x0800000000000008],
      flags = turn_flags t 0x0F80\<rparr>"

text \<open>The four moves, as the generator encodes them (source, destination and the low
  half of the flags).\<close>

definition move_b1a3 :: move where "move_b1a3 = 0x44010F00"
definition move_b8a6 :: move where "move_b8a6 = 0x4A390F80"
definition move_a3b1 :: move where "move_a3b1 = 0x40500F00"
definition move_a6b8 :: move where "move_a6b8 = 0x4E680F80"

lemmas shuffle_defs = move_b1a3_def move_b8a6_def move_a3b1_def move_a6b8_def

lemma shuffle_strs:
  "map move_to_str [move_b1a3, move_b8a6, move_a3b1, move_a6b8]
     = [Some ''b1a3'', Some ''b8a6'', Some ''a3b1'', Some ''a6b8'']"
  by (simp add: eval_rules str_rules shuffle_defs)

lemma step1_make:
  "board_make_move (knights_home t) move_b1a3 = Some (knight_out_white t)"
  by (simp add: eval_rules turn_rules shuffle_defs knights_home_def knight_out_white_def
        del: set_turn_number_def board_get_full_turn_number_def)

lemma step1_legal:
  "move_is_legal move_b1a3 (knights_home t) = Some True"
  by (simp add: eval_rules turn_rules legal_rules shuffle_defs knights_home_def
        del: set_turn_number_def board_get_full_turn_number_def)

lemma step2_make:
  "board_make_move (knight_out_white t) move_b8a6 = Some (knights_out (t + 1))"
  by (simp add: eval_rules turn_rules shuffle_defs knight_out_white_def knights_out_def
        del: set_turn_number_def board_get_full_turn_number_def)

lemma step2_legal:
  "move_is_legal move_b8a6 (knight_out_white t) = Some True"
  by (simp add: eval_rules turn_rules legal_rules shuffle_defs knight_out_white_def
        del: set_turn_number_def board_get_full_turn_number_def)

lemma step3_make:
  "board_make_move (knights_out t) move_a3b1 = Some (knight_out_black t)"
  by (simp add: eval_rules turn_rules shuffle_defs knights_out_def knight_out_black_def
        del: set_turn_number_def board_get_full_turn_number_def)

lemma step3_legal:
  "move_is_legal move_a3b1 (knights_out t) = Some True"
  by (simp add: eval_rules turn_rules legal_rules shuffle_defs knights_out_def
        del: set_turn_number_def board_get_full_turn_number_def)

lemma step4_make:
  "board_make_move (knight_out_black t) move_a6b8 = Some (knights_home (t + 1))"
  by (simp add: eval_rules turn_rules shuffle_defs knight_out_black_def knights_home_def
        del: set_turn_number_def board_get_full_turn_number_def)

lemma step4_legal:
  "move_is_legal move_a6b8 (knight_out_black t) = Some True"
  by (simp add: eval_rules turn_rules legal_rules shuffle_defs knight_out_black_def
        del: set_turn_number_def board_get_full_turn_number_def)

text \<open>Playing a list of moves from a board, as a client of the library does: each move
  is checked with \<open>move_is_legal\<close> and applied with \<open>board_make_move\<close>.  \<open>None\<close> when a
  move is not legal, or a call aborts.\<close>

fun board_play :: "board \<Rightarrow> move list \<Rightarrow> board option" where
  "board_play b [] = Some b"
| "board_play b (m # ms) =
     (if move_is_legal m b = Some True
      then (case board_make_move b m of None \<Rightarrow> None | Some b1 \<Rightarrow> board_play b1 ms)
      else None)"

lemma board_play_append:
  "board_play b (xs @ ys) = (case board_play b xs of None \<Rightarrow> None | Some b1 \<Rightarrow> board_play b1 ys)"
  by (induction xs arbitrary: b) (auto split: option.splits)

definition knight_shuffle :: "move list" where
  "knight_shuffle = [move_b1a3, move_b8a6, move_a3b1, move_a6b8]"

lemma knight_shuffle_play:
  "board_play (knights_home t) knight_shuffle = Some (knights_home (t + 2))"
  by (simp add: knight_shuffle_def step1_make step1_legal step2_make step2_legal
        step3_make step3_legal step4_make step4_legal add.commute)

lemma knight_shuffles_play:
  "board_play (knights_home t) (concat (replicate n knight_shuffle))
     = Some (knights_home (t + 2 * of_nat n))"
proof (induction n arbitrary: t)
  case 0
  show ?case by simp
next
  case (Suc n)
  have "t + 2 + 2 * of_nat n = t + 2 * of_nat (Suc n)" by simp
  with Suc[of "t + 2"] show ?case
    by (simp add: board_play_append knight_shuffle_play)
qed

lemma knights_home_1: "knights_home 1 = initial_board"
  by (simp add: knights_home_def initial_board_def turn_flags_def)

lemma knights_home_1001_reachable:
  "board_play initial_board (concat (replicate 500 knight_shuffle)) = Some (knights_home 1001)"
  using knight_shuffles_play[of 1 500] by (simp add: knights_home_1)

lemmas fen_emit_rules = board_to_fen_str_def board_castling_to_str_def board_ep_to_str_def
  board_piece_char_from_piece_player_def piece_str_def snprintf4_def dec_str.simps
  board_pos_to_str_def char_code_def char_of_def bit_0 bit_Suc_0_iff

lemma knights_home_1001_to_fen:
  "board_to_fen_str (knights_home 1001)
     = Some ''rnbqkbnr/pppppppp/8/8/8/8/PPPPPPPP/RNBQKBNR w KQkq - 0 100''"
  by (simp add: eval_rules fen_emit_rules knights_home_def turn_flags_def)

lemma knights_home_100_fen:
  "board_from_fen_str ''rnbqkbnr/pppppppp/8/8/8/8/PPPPPPPP/RNBQKBNR w KQkq - 0 100''
     = Some (knights_home 100)"
  by (simp add: eval_rules fen_rules knights_home_def turn_flags_def)

text \<open>
  Claim C6 fails for a full-turn counter of four digits.  Five hundred rounds of the knight
  shuffle b1a3 b8a6 a3b1 a6b8, every move legal by \<open>move_is_legal\<close> and made by
  \<open>board_make_move\<close>, lead from the initial position to the initial placement with White to
  move, all castling rights and the full-turn counter 1001.  \<open>board_to_fen_str\<close> prints
  the counter with \<open>snprintf(res_str, 4, ...)\<close>, which keeps three digits: the position
  is written with the counter 100, and \<open>board_from_fen_str\<close> reads the string back as the
  position with the counter 100, which is another position.
\<close>

theorem fen_round_trip_loses_fourth_digit:
  "board_play initial_board (concat (replicate 500 knight_shuffle)) = Some (knights_home 1001)
   \<and> map move_to_str knight_shuffle = [Some ''b1a3'', Some ''b8a6'', Some ''a3b1'', Some ''a6b8'']
   \<and> knights_home 1001 = initial_board\<lparr>flags := 0x03E90F00\<rparr>
   \<and> board_get_full_turn_number (knights_home 1001) = 1001
   \<and> board_to_fen_str (knights_home 1001)
       = Some ''rnbqkbnr/pppppppp/8/8/8/8/PPPPPPPP/RNBQKBNR w KQkq - 0 100''
   \<and> board_from_fen_str ''rnbqkbnr/pppppppp/8/8/8/8/PPPPPPPP/RNBQKBNR w KQkq - 0 100''
       = Some (knights_home 100)
   \<and> board_get_full_turn_number (knights_home 100) = 100
   \<and> knights_home 100 \<noteq> knights_home 1001"
proof (intro conjI)
  show "board_play initial_board (concat (replicate 500 knight_shuffle))
          = Some (knights_home 1001)"
    by (rule knights_home_1001_reachable)
  show "map move_to_str knight_shuffle
          = [Some ''b1a3'', Some ''b8a6'', Some ''a3b1'', Some ''a6b8'']"
    unfolding knight_shuffle_def by (rule shuffle_strs)
  show "board_to_fen_str (knights_home 1001)
       = Some ''rnbqkbnr/pppppppp/8/8/8/8/PPPPPPPP/RNBQKBNR w KQkq - 0 100''"
    by (rule knights_home_1001_to_fen)
  show "board_from_fen_str ''rnbqkbnr/pppppppp/8/8/8/8/PPPPPPPP/RNBQKBNR w KQkq - 0 100''
       = Some (knights_home 100)"
    by (rule knights_home_100_fen)
qed (simp_all add: board_get_full_turn_number_def knights_home_def turn_flags_def
       initial_board_def flag_defs)

end
